theory Spec2Isabelle
  imports Main "HOL-Library.Sublist"
begin

section \<open>Configuration (\<^verbatim>\<open>CONFIG\<close>, background-improved.js lines 7-17)\<close>

definition API_BASE_URL :: string where
  "API_BASE_URL = ''https://api.github.com''"

definition MAX_RETRIES :: nat where
  "MAX_RETRIES = 3"

definition RETRY_DELAY :: nat where
  "RETRY_DELAY = 1000"

section \<open>JavaScript values and strings\<close>

text \<open>
  Parsed JSON, as \<^verbatim>\<open>response.json()\<close> yields it. \<open>JNull\<close> is also the \<^verbatim>\<open>null\<close> that
  \<^verbatim>\<open>getFileContent\<close> returns for a missing file. An object is the list of its own
  properties. \<^verbatim>\<open>undefined\<close> is \<open>None\<close> of \<open>json option\<close>.
\<close>

datatype json =
    JNull
  | JBool bool
  | JNum int
  | JStr string
  | JArr "json list"
  | JObj "(string \<times> json) list"

text \<open>Truthiness of a value, as \<^verbatim>\<open>if (sha)\<close> tests it.\<close>

fun truthy :: "json \<Rightarrow> bool" where
  "truthy JNull = False"
| "truthy (JBool b) = b"
| "truthy (JNum n) = (n \<noteq> 0)"
| "truthy (JStr s) = (s \<noteq> [])"
| "truthy (JArr xs) = True"
| "truthy (JObj kvs) = True"

text \<open>\<^verbatim>\<open>existingFile?.sha\<close>: \<^verbatim>\<open>undefined\<close> on \<^verbatim>\<open>null\<close>, on a value without that property.\<close>

fun get_sha :: "json \<Rightarrow> json option" where
  "get_sha (JObj kvs) = map_of kvs ''sha''"
| "get_sha j = None"

text \<open>A string variable that may hold \<^verbatim>\<open>null\<close>; \<^verbatim>\<open>!authToken\<close> is true on \<^verbatim>\<open>null\<close> and on \<^verbatim>\<open>''\<close>.\<close>

fun is_set :: "string option \<Rightarrow> bool" where
  "is_set None = False"
| "is_set (Some v) = (v \<noteq> [])"

definition startsWith :: "string \<Rightarrow> string \<Rightarrow> bool" where
  "startsWith s p = (take (length p) s = p)"

text \<open>\<^verbatim>\<open>s.includes(sub)\<close>: \<open>sub\<close> occurs in \<open>s\<close> as a contiguous substring.\<close>

fun includes_str :: "string \<Rightarrow> string \<Rightarrow> bool" where
  "includes_str [] sub = (sub = [])"
| "includes_str (c # cs) sub = (startsWith (c # cs) sub \<or> includes_str cs sub)"

text \<open>\<^verbatim>\<open>toLowerCase\<close> on the ASCII letters (a \<open>char\<close> is a byte).\<close>

definition lower_char :: "char \<Rightarrow> char" where
  "lower_char c =
     (let n = of_char c :: nat in if 65 \<le> n \<and> n \<le> 90 then char_of (n + 32) else c)"

definition toLowerCase :: "string \<Rightarrow> string" where
  "toLowerCase s = map lower_char s"

text \<open>\<^verbatim>\<open>.replace(/%2F/g, '/')\<close>\<close>

function replace_2F :: "string \<Rightarrow> string" where
  "replace_2F [] = []"
| "replace_2F (c # cs) =
     (if startsWith (c # cs) ''%2F'' then CHR ''/'' # replace_2F (drop 2 cs)
      else c # replace_2F cs)"
  by pat_completeness auto
termination
  by (relation "measure length") auto

text \<open>A number in a template literal: its decimal digits.\<close>

function show_nat :: "nat \<Rightarrow> string" where
  "show_nat n =
     (if n < 10 then [char_of (48 + n)]
      else show_nat (n div 10) @ [char_of (48 + n mod 10)])"
  by pat_completeness auto
termination
  by (relation "measure id") auto

declare show_nat.simps [simp del]

section \<open>The browser: network, storage, clock\<close>

text \<open>
  The \<^verbatim>\<open>options\<close> argument of \<^verbatim>\<open>apiRequest\<close>: its callers pass a method and a body,
  or neither, and never headers of their own.
\<close>

record options =
  opt_method :: "string option"
  opt_body :: "json option"

text \<open>
  What \<^verbatim>\<open>fetch\<close> is called with. \<open>req_body\<close> is the object handed to
  \<^verbatim>\<open>JSON.stringify\<close>; an absent \<open>req_method\<close> is a GET.
\<close>

record request =
  req_url :: string
  req_method :: "string option"
  req_authorization :: string
  req_accept :: string
  req_body :: "json option"

text \<open>
  A response as the code reads it: \<open>rate_remaining\<close> is
  \<^verbatim>\<open>headers.get('X-RateLimit-Remaining')\<close>, \<open>body_text\<close> is \<^verbatim>\<open>response.text()\<close>,
  \<open>body_json\<close> is \<^verbatim>\<open>response.json()\<close> (\<open>Inl\<close> when parsing rejects).
\<close>

record response =
  status :: nat
  rate_remaining :: "string option"
  body_text :: string
  body_json :: "string + json"

definition ok :: "response \<Rightarrow> bool" where
  "ok r = (200 \<le> status r \<and> status r \<le> 299)"

datatype fetch_result =
    NetworkFailure string
  | Response response

record upload_result =
  r_file :: string
  r_status :: string
  r_result :: json

record upload_error =
  e_file :: string
  e_status :: string
  e_error :: string

text \<open>\<^verbatim>\<open>currentUpload\<close> (lines 26-38).\<close>

record upload_session =
  active :: bool
  owner :: "string option"
  repo :: "string option"
  branch :: string
  total :: nat
  current :: nat
  cur_file :: string
  results :: "upload_result list"
  errors :: "upload_error list"
  startedAt :: "nat option"
  finishedAt :: "nat option"

text \<open>The \<^verbatim>\<open>uploadProgress\<close> message handed to \<^verbatim>\<open>chrome.runtime.sendMessage\<close>.\<close>

record progress =
  p_file :: string
  p_status :: string
  p_error :: "string option"
  p_current :: nat
  p_total :: nat

text \<open>
  The service worker's globals and what it has done to the browser: the two keys of
  \<^verbatim>\<open>chrome.storage.local\<close>, every value written to \<^verbatim>\<open>chrome.storage.session\<close>
  (the last one is what a reader finds), every \<^verbatim>\<open>fetch\<close> issued, every timeout
  awaited, every message sent and those an open popup received. \<open>now\<close> is the clock
  \<^verbatim>\<open>Date.now()\<close> reads; it never runs backwards and an awaited timeout advances it.
\<close>

record state =
  authToken :: "string option"
  authMethod :: "string option"
  stored_github_token :: "string option"
  stored_auth_method :: "string option"
  currentUpload :: upload_session
  session_writes :: "upload_session list"
  fetch_log :: "request list"
  sleeps :: "nat list"
  sent :: "progress list"
  delivered :: "progress list"
  now :: nat

text \<open>
  What the browser supplies: the remote server (its answer may depend on every request
  made so far), \<^verbatim>\<open>encodeURIComponent\<close>, whether \<^verbatim>\<open>chrome.storage.session.set\<close>
  exists, and whether a popup is listening.
\<close>

record env =
  fetch :: "request list \<Rightarrow> request \<Rightarrow> fetch_result"
  encodeURIComponent :: "string \<Rightarrow> string"
  has_session_storage :: bool
  popup_open :: bool

definition sleep :: "nat \<Rightarrow> state \<Rightarrow> state" where
  "sleep ms s = s\<lparr>sleeps := sleeps s @ [ms], now := now s + ms\<rparr>"

section \<open>API Gateway\<close>

text \<open>
  \<^verbatim>\<open>loadStoredToken\<close> (lines 73-91). Reading \<^verbatim>\<open>chrome.storage.local\<close> is taken not
  to fail.
\<close>

definition loadStoredToken :: "state \<Rightarrow> bool \<times> state" where
  "loadStoredToken s =
     (if is_set (stored_github_token s)
      then (True, s\<lparr>authToken := stored_github_token s,
                     authMethod := (if is_set (stored_auth_method s)
                                    then stored_auth_method s else Some ''pat'')\<rparr>)
      else (False, s))"

datatype try_outcome =
    Thrown string
  | RetryNotOk
  | Returned "string + json"

definition bearer :: "string option \<Rightarrow> string" where
  "bearer t = ''Bearer '' @ (case t of Some v \<Rightarrow> v | None \<Rightarrow> ''null'')"

text \<open>
  The \<^verbatim>\<open>try\<close> block of \<^verbatim>\<open>apiRequest\<close> (lines 247-287). \<open>Thrown\<close> is an error that
  reaches the \<^verbatim>\<open>catch\<close>; \<open>RetryNotOk\<close> is line 277 taking the retry; \<open>Returned\<close> is
  \<^verbatim>\<open>return response.json()\<close>, whose rejection the \<^verbatim>\<open>catch\<close> does not see, the
  promise being returned without \<^verbatim>\<open>await\<close>.
\<close>

definition try_block :: "env \<Rightarrow> string \<Rightarrow> options \<Rightarrow> nat \<Rightarrow> state \<Rightarrow> try_outcome \<times> state" where
  "try_block e url opts retries s =
     (let req = \<lparr>req_url = url, req_method = opt_method opts,
                 req_authorization = bearer (authToken s),
                 req_accept = ''application/vnd.github.v3+json'',
                 req_body = opt_body opts\<rparr>;
          s1 = s\<lparr>fetch_log := fetch_log s @ [req]\<rparr>
      in case fetch e (fetch_log s) req of
           NetworkFailure m \<Rightarrow> (Thrown m, s1)
         | Response r \<Rightarrow>
             if status r = 401
             then (Thrown ''Authentication expired. Please login again.'',
                   s1\<lparr>authToken := None, authMethod := None,
                      stored_github_token := None, stored_auth_method := None\<rparr>)
             else if status r = 404 then (Thrown ''Resource not found'', s1)
             else if status r = 403
             then (if rate_remaining r = Some ''0''
                   then (Thrown ''GitHub API rate limit exceeded. Please try again later.'', s1)
                   else (Thrown ''Permission denied. Check your token permissions.'', s1))
             else if \<not> ok r \<and> retries < MAX_RETRIES then (RetryNotOk, s1)
             else if \<not> ok r
             then (Thrown (''API request failed: '' @ show_nat (status r) @ '' - '' @ body_text r), s1)
             else (Returned (body_json r), s1))"

lemma try_block_RetryNotOk:
  "(RetryNotOk, s1) = try_block e url opts retries s \<Longrightarrow> retries < MAX_RETRIES"
  by (auto simp: try_block_def Let_def split: fetch_result.splits if_splits)

text \<open>
  \<^verbatim>\<open>apiRequest\<close> (lines 236-295). The result is \<open>Inl\<close> the message of the error
  thrown, or \<open>Inr\<close> the parsed response.
\<close>

function apiRequest :: "env \<Rightarrow> string \<Rightarrow> options \<Rightarrow> nat \<Rightarrow> state \<Rightarrow> (string + json) \<times> state" where
  "apiRequest e endpoint opts retries s =
     (let s0 = (if \<not> is_set (authToken s) then snd (loadStoredToken s) else s) in
      if \<not> is_set (authToken s0) then (Inl ''Not authenticated. Please login first.'', s0)
      else
        let url = (if startsWith endpoint ''http'' then endpoint else API_BASE_URL @ endpoint) in
        case try_block e url opts retries s0 of
          (Returned r, s1) \<Rightarrow> (r, s1)
        | (RetryNotOk, s1) \<Rightarrow>
            apiRequest e endpoint opts (retries + 1) (sleep (RETRY_DELAY * (retries + 1)) s1)
        | (Thrown m, s1) \<Rightarrow>
            if retries < MAX_RETRIES \<and> \<not> includes_str m ''Authentication''
            then apiRequest e endpoint opts (retries + 1) (sleep (RETRY_DELAY * (retries + 1)) s1)
            else (Inl m, s1))"
  by pat_completeness auto
termination
  by (relation "measure (\<lambda>(e, endpoint, opts, retries, s). MAX_RETRIES - retries)")
     (auto dest!: try_block_RetryNotOk)

declare apiRequest.simps [simp del]

section \<open>Existence Resolver and Upload Executor\<close>

text \<open>
  \<^verbatim>\<open>getFileContent\<close> (lines 381-394). Its caller passes a branch, so the default of
  the parameter is never taken. \<^verbatim>\<open>encodeURIComponent\<close> is total here: a \<open>string\<close> of
  bytes has no lone surrogate for it to reject.
\<close>

definition getFileContent :: "env \<Rightarrow> string \<Rightarrow> string \<Rightarrow> string \<Rightarrow> string \<Rightarrow> state \<Rightarrow> (string + json) \<times> state" where
  "getFileContent e own rep path br s =
     (let encodedPath = replace_2F (encodeURIComponent e path) in
      case apiRequest e (''/repos/'' @ own @ ''/'' @ rep @ ''/contents/'' @ encodedPath @ ''?ref='' @ br)
             \<lparr>opt_method = None, opt_body = None\<rparr> 0 s of
        (Inr j, s1) \<Rightarrow> (Inr j, s1)
      | (Inl m, s1) \<Rightarrow>
          let msg = toLowerCase m in
          if includes_str msg ''404'' \<or> includes_str msg ''not found''
             \<or> includes_str msg ''resource not found''
          then (Inr JNull, s1)
          else (Inl m, s1))"

text \<open>
  \<^verbatim>\<open>uploadFile\<close> (lines 399-414). The \<open>sha\<close> argument is \<open>None\<close> for
  \<^verbatim>\<open>undefined\<close>, which the parameter's default turns into \<^verbatim>\<open>null\<close>.
\<close>

definition uploadFile :: "env \<Rightarrow> string \<Rightarrow> string \<Rightarrow> string \<Rightarrow> string \<Rightarrow> string \<Rightarrow> string \<Rightarrow> json option \<Rightarrow> state \<Rightarrow> (string + json) \<times> state" where
  "uploadFile e own rep path content message br sha s =
     (let sha' = (case sha of None \<Rightarrow> JNull | Some v \<Rightarrow> v);
          body = [(''message'', JStr message), (''content'', JStr content), (''branch'', JStr br)]
                 @ (if truthy sha' then [(''sha'', sha')] else [])
      in apiRequest e (''/repos/'' @ own @ ''/'' @ rep @ ''/contents/'' @ path)
           \<lparr>opt_method = Some ''PUT'', opt_body = Some (JObj body)\<rparr> 0 s)"

section \<open>Batch Orchestrator\<close>

record file_record =
  path :: string
  content :: string

text \<open>
  \<^verbatim>\<open>try { if (chrome.storage.session && chrome.storage.session.set) { await
  chrome.storage.session.set({ currentUpload }); } } catch (_) {}\<close>
\<close>

definition persist :: "env \<Rightarrow> state \<Rightarrow> state" where
  "persist e s =
     (if has_session_storage e then s\<lparr>session_writes := session_writes s @ [currentUpload s]\<rparr>
      else s)"

text \<open>
  \<^verbatim>\<open>chrome.runtime.sendMessage({...}).catch(() => {})\<close>: with no popup listening the
  promise rejects and the rejection is dropped.
\<close>

definition sendMessage :: "env \<Rightarrow> progress \<Rightarrow> state \<Rightarrow> state" where
  "sendMessage e m s =
     (let s1 = s\<lparr>sent := sent s @ [m]\<rparr> in
      if popup_open e then s1\<lparr>delivered := delivered s1 @ [m]\<rparr> else s1)"

text \<open>The \<^verbatim>\<open>catch\<close> block of the loop body (lines 476-498).\<close>

definition on_error :: "env \<Rightarrow> nat \<Rightarrow> file_record \<Rightarrow> string \<Rightarrow> state \<times> upload_result list \<times> upload_error list \<Rightarrow> state \<times> upload_result list \<times> upload_error list" where
  "on_error e files_length f m st =
     (case st of (s, res, errs) \<Rightarrow>
        let errs1 = errs @ [\<lparr>e_file = path f, e_status = ''error'', e_error = m\<rparr>];
            s1 = s\<lparr>currentUpload := (currentUpload s)
                    \<lparr>current := length res + length errs1, cur_file := path f, errors := errs1\<rparr>\<rparr>;
            s2 = persist e s1;
            s3 = sendMessage e \<lparr>p_file = path f, p_status = ''error'', p_error = Some m,
                                 p_current = length res + length errs1,
                                 p_total = files_length\<rparr> s2
        in (s3, res, errs1))"

text \<open>
  One iteration of \<^verbatim>\<open>for (const file of files)\<close> (lines 439-499), on the globals and
  the two local arrays \<^verbatim>\<open>results\<close> and \<^verbatim>\<open>errors\<close>.
\<close>

definition upload_step :: "env \<Rightarrow> string \<Rightarrow> string \<Rightarrow> nat \<Rightarrow> string \<Rightarrow> string \<Rightarrow> file_record \<Rightarrow> state \<times> upload_result list \<times> upload_error list \<Rightarrow> state \<times> upload_result list \<times> upload_error list" where
  "upload_step e own rep files_length message br f st =
     (case st of (s, res, errs) \<Rightarrow>
        case getFileContent e own rep (path f) br s of
          (Inl m, s1) \<Rightarrow> on_error e files_length f m (s1, res, errs)
        | (Inr existingFile, s1) \<Rightarrow>
            (case uploadFile e own rep (path f) (content f)
                    (if message \<noteq> [] then message else ''Upload '' @ path f)
                    br (get_sha existingFile) s1 of
               (Inl m, s2) \<Rightarrow> on_error e files_length f m (s2, res, errs)
             | (Inr result, s2) \<Rightarrow>
                 let res1 = res @ [\<lparr>r_file = path f, r_status = ''success'', r_result = result\<rparr>];
                     s3 = s2\<lparr>currentUpload := (currentUpload s2)
                             \<lparr>current := length res1 + length errs, cur_file := path f,
                              results := res1\<rparr>\<rparr>;
                     s4 = persist e s3;
                     s5 = sendMessage e \<lparr>p_file = path f, p_status = ''success'', p_error = None,
                                          p_current = length res1,
                                          p_total = files_length\<rparr> s4
                 in (s5, res1, errs)))"

fun batch_loop :: "env \<Rightarrow> string \<Rightarrow> string \<Rightarrow> nat \<Rightarrow> string \<Rightarrow> string \<Rightarrow> file_record list \<Rightarrow> state \<times> upload_result list \<times> upload_error list \<Rightarrow> state \<times> upload_result list \<times> upload_error list" where
  "batch_loop e own rep files_length message br [] st = st"
| "batch_loop e own rep files_length message br (f # fs) st =
     batch_loop e own rep files_length message br fs
       (upload_step e own rep files_length message br f st)"

text \<open>``Initialize session state'' (lines 423-437).\<close>

definition init_session :: "env \<Rightarrow> string \<Rightarrow> string \<Rightarrow> file_record list \<Rightarrow> string \<Rightarrow> state \<Rightarrow> state" where
  "init_session e own rep files br s =
     persist e (s\<lparr>currentUpload :=
                   \<lparr>active = True, owner = Some own, repo = Some rep, branch = br,
                    total = length files, current = 0, cur_file = [],
                    results = [], errors = [],
                    startedAt = Some (now s), finishedAt = None\<rparr>\<rparr>)"

text \<open>``Finalize session state'' and the return (lines 501-508).\<close>

definition finalize_session :: "env \<Rightarrow> state \<times> upload_result list \<times> upload_error list \<Rightarrow> (upload_result list \<times> upload_error list) \<times> state" where
  "finalize_session e st =
     (case st of (s, res, errs) \<Rightarrow>
        let s1 = s\<lparr>currentUpload := (currentUpload s)
                    \<lparr>active := False, finishedAt := Some (now s),
                     results := res, errors := errs\<rparr>\<rparr>;
            s2 = persist e s1
        in ((res, errs), s2))"

text \<open>
  The parameter \<^verbatim>\<open>branch = 'main'\<close>: the only caller passes \<^verbatim>\<open>request.branch\<close>;
  \<open>None\<close> is \<^verbatim>\<open>undefined\<close>, for which the default stands.
\<close>

definition default_branch :: "string option \<Rightarrow> string" where
  "default_branch branch_arg = (case branch_arg of None \<Rightarrow> ''main'' | Some b \<Rightarrow> b)"

text \<open>\<^verbatim>\<open>batchUpload\<close> (lines 419-509).\<close>

definition batchUpload :: "env \<Rightarrow> string \<Rightarrow> string \<Rightarrow> file_record list \<Rightarrow> string \<Rightarrow> string option \<Rightarrow> state \<Rightarrow> (upload_result list \<times> upload_error list) \<times> state" where
  "batchUpload e own rep files message branch_arg s =
     (let br = default_branch branch_arg in
      finalize_session e
        (batch_loop e own rep (length files) message br files
           (init_session e own rep files br s, [], [])))"

section \<open>Observing a gateway call\<close>

text \<open>
  Names for the parts of \<^verbatim>\<open>apiRequest\<close> that the properties speak about: the state
  after the token check, the request that goes out, the answers the server gave, and
  what an answer leads to.
\<close>

definition start :: "state \<Rightarrow> state" where
  "start s = (if \<not> is_set (authToken s) then snd (loadStoredToken s) else s)"

definition the_url :: "string \<Rightarrow> string" where
  "the_url endpoint = (if startsWith endpoint ''http'' then endpoint else API_BASE_URL @ endpoint)"

definition the_request :: "string \<Rightarrow> options \<Rightarrow> state \<Rightarrow> request" where
  "the_request endpoint opts s =
     \<lparr>req_url = the_url endpoint, req_method = opt_method opts,
      req_authorization = bearer (authToken s),
      req_accept = ''application/vnd.github.v3+json'',
      req_body = opt_body opts\<rparr>"

fun retryable :: "fetch_result \<Rightarrow> bool" where
  "retryable (NetworkFailure m) = (\<not> includes_str m ''Authentication'')"
| "retryable (Response r) = (\<not> ok r \<and> status r \<noteq> 401)"

fun classify :: "fetch_result \<Rightarrow> string + json" where
  "classify (NetworkFailure m) = Inl m"
| "classify (Response r) =
     (if status r = 401 then Inl ''Authentication expired. Please login again.''
      else if status r = 404 then Inl ''Resource not found''
      else if status r = 403 then
        (if rate_remaining r = Some ''0''
         then Inl ''GitHub API rate limit exceeded. Please try again later.''
         else Inl ''Permission denied. Check your token permissions.'')
      else if \<not> ok r then Inl (''API request failed: '' @ show_nat (status r) @ '' - '' @ body_text r)
      else body_json r)"

fun is_401 :: "fetch_result \<Rightarrow> bool" where
  "is_401 (NetworkFailure m) = False"
| "is_401 (Response r) = (status r = 401)"

definition evict :: "state \<Rightarrow> state" where
  "evict s = s\<lparr>authToken := None, authMethod := None,
      stored_github_token := None, stored_auth_method := None\<rparr>"

fun outcome :: "nat \<Rightarrow> fetch_result \<Rightarrow> try_outcome" where
  "outcome retries (NetworkFailure m) = Thrown m"
| "outcome retries (Response r) =
     (if status r = 401 then Thrown ''Authentication expired. Please login again.''
      else if status r = 404 then Thrown ''Resource not found''
      else if status r = 403 then
        (if rate_remaining r = Some ''0''
         then Thrown ''GitHub API rate limit exceeded. Please try again later.''
         else Thrown ''Permission denied. Check your token permissions.'')
      else if \<not> ok r \<and> retries < MAX_RETRIES then RetryNotOk
      else if \<not> ok r then Thrown (''API request failed: '' @ show_nat (status r) @ '' - '' @ body_text r)
      else Returned (body_json r))"

fun responses :: "env \<Rightarrow> request list \<Rightarrow> request list \<Rightarrow> fetch_result list" where
  "responses e l [] = []"
| "responses e l (q # qs) = fetch e l q # responses e (l @ [q]) qs"

definition delays :: "nat \<Rightarrow> nat \<Rightarrow> nat list" where
  "delays retries n = map (\<lambda>k. RETRY_DELAY * k) [retries + 1 ..< retries + n]"

definition after_call :: "state \<Rightarrow> request \<Rightarrow> nat \<Rightarrow> nat \<Rightarrow> state" where
  "after_call s0 q retries n =
     s0\<lparr>fetch_log := fetch_log s0 @ replicate n q,
        sleeps := sleeps s0 @ delays retries n,
        now := now s0 + sum_list (delays retries n)\<rparr>"

definition no_credential :: "state \<Rightarrow> bool" where
  "no_credential s = (\<not> is_set (authToken s) \<and> \<not> is_set (stored_github_token s))"

definition new_requests :: "state \<Rightarrow> state \<Rightarrow> request list" where
  "new_requests s s' = drop (length (fetch_log s)) (fetch_log s')"

definition not_found_message :: "string \<Rightarrow> bool" where
  "not_found_message m =
     (includes_str (toLowerCase m) ''404'' \<or> includes_str (toLowerCase m) ''not found''
      \<or> includes_str (toLowerCase m) ''resource not found'')"

definition lookup_endpoint :: "env \<Rightarrow> string \<Rightarrow> string \<Rightarrow> string \<Rightarrow> string \<Rightarrow> string" where
  "lookup_endpoint e own rep p br =
     ''/repos/'' @ own @ ''/'' @ rep @ ''/contents/'' @ replace_2F (encodeURIComponent e p) @ ''?ref='' @ br"

definition put_endpoint :: "string \<Rightarrow> string \<Rightarrow> string \<Rightarrow> string" where
  "put_endpoint own rep p = ''/repos/'' @ own @ ''/'' @ rep @ ''/contents/'' @ p"

definition put_body :: "string \<Rightarrow> string \<Rightarrow> string \<Rightarrow> json option \<Rightarrow> json" where
  "put_body message c br sha =
     JObj ([(''message'', JStr message), (''content'', JStr c), (''branch'', JStr br)]
           @ (case sha of None \<Rightarrow> [] | Some v \<Rightarrow> if truthy v then [(''sha'', v)] else []))"

definition commit_message :: "string \<Rightarrow> file_record \<Rightarrow> string" where
  "commit_message message f = (if message \<noteq> [] then message else ''Upload '' @ path f)"

definition get_or_put :: "request \<Rightarrow> bool" where
  "get_or_put q = (req_method q = None \<or> req_method q = Some ''PUT'')"

section \<open>Concrete browsers, servers and states\<close>

definition idle_session :: upload_session where
  "idle_session = \<lparr>active = False, owner = None, repo = None, branch = ''main'', total = 0,
     current = 0, cur_file = [], results = [], errors = [], startedAt = None, finishedAt = None\<rparr>"

definition logged_in :: state where
  "logged_in = \<lparr>authToken = Some ''ghp_token'', authMethod = Some ''pat'',
     stored_github_token = Some ''ghp_token'', stored_auth_method = Some ''pat'',
     currentUpload = idle_session, session_writes = [], fetch_log = [], sleeps = [],
     sent = [], delivered = [], now = 0\<rparr>"

definition answer :: "nat \<Rightarrow> string \<Rightarrow> json \<Rightarrow> fetch_result" where
  "answer code txt j = Response \<lparr>status = code, rate_remaining = None, body_text = txt, body_json = Inr j\<rparr>"

definition browser :: "(request list \<Rightarrow> request \<Rightarrow> fetch_result) \<Rightarrow> env" where
  "browser server = \<lparr>fetch = server, encodeURIComponent = (\<lambda>p. p),
     has_session_storage = True, popup_open = True\<rparr>"

definition three_500_then_200 :: "request list \<Rightarrow> request \<Rightarrow> fetch_result" where
  "three_500_then_200 l q =
     (if length l < 3 then answer 500 ''Internal Server Error'' JNull
      else answer 200 ''{}'' (JObj []))"

definition no_options :: options where
  "no_options = \<lparr>opt_method = None, opt_body = None\<rparr>"

definition rate_limited :: fetch_result where
  "rate_limited = Response \<lparr>status = 403, rate_remaining = Some ''0'', body_text = ''rate limit'',
     body_json = Inr JNull\<rparr>"

text \<open>
  A server that answers the first four requests 403 with no quota left; after that a
  lookup finds the file and a PUT is accepted.
\<close>

definition throttled_server :: "request list \<Rightarrow> request \<Rightarrow> fetch_result" where
  "throttled_server l q =
     (if length l < 4 then rate_limited
      else if req_method q = None then answer 200 ''{}'' (JObj [(''sha'', JStr ''abc123'')])
      else answer 200 ''{}'' (JObj [(''commit'', JStr ''c1'')]))"

definition a_txt :: file_record where
  "a_txt = \<lparr>path = ''a.txt'', content = ''YQ==''\<rparr>"

definition b_txt :: file_record where
  "b_txt = \<lparr>path = ''b.txt'', content = ''Yg==''\<rparr>"

text \<open>A server that gives the same answer to every request.\<close>

definition always :: "fetch_result \<Rightarrow> request list \<Rightarrow> request \<Rightarrow> fetch_result" where
  "always x l q = x"

text \<open>A server on which every file exists at hash \<^verbatim>\<open>abc123\<close> and every request succeeds.\<close>

definition existing_server :: "request list \<Rightarrow> request \<Rightarrow> fetch_result" where
  "existing_server l q = answer 200 ''{}'' (JObj [(''sha'', JStr ''abc123'')])"

text \<open>A server on which no file exists yet: lookups are answered 404, PUTs 201.\<close>

definition empty_repo_server :: "request list \<Rightarrow> request \<Rightarrow> fetch_result" where
  "empty_repo_server l q =
     (if req_method q = None then answer 404 ''Not Found'' JNull
      else answer 201 ''{}'' (JObj [(''commit'', JStr ''c1'')]))"

text \<open>What a snapshot of the session must say about a batch of \<open>n\<close> files.\<close>

definition consistent :: "nat \<Rightarrow> upload_session \<Rightarrow> bool" where
  "consistent n u = (current u = length (results u) + length (errors u) \<and> total u = n)"

text \<open>
  A server whose lookups fail with a 500 and a body that mentions a 404 further upstream;
  PUTs are accepted.
\<close>

definition broken_lookup_server :: "request list \<Rightarrow> request \<Rightarrow> fetch_result" where
  "broken_lookup_server l q =
     (if req_method q = None then answer 500 ''upstream said 404'' JNull
      else answer 201 ''{}'' (JObj [(''commit'', JStr ''c1'')]))"

section \<open>One attempt, and the whole call\<close>

lemma includes_auth_expired: "includes_str ''Authentication expired. Please login again.'' ''Authentication''"
  by (simp add: startsWith_def)

lemma not_includes_msgs:
  "\<not> includes_str ''Resource not found'' ''Authentication''"
  "\<not> includes_str ''GitHub API rate limit exceeded. Please try again later.'' ''Authentication''"
  "\<not> includes_str ''Permission denied. Check your token permissions.'' ''Authentication''"
  by (simp_all add: startsWith_def)


lemma try_block_alt:
  "try_block e (the_url endpoint) opts retries s =
     (outcome retries (fetch e (fetch_log s) (the_request endpoint opts s)),
      (if is_401 (fetch e (fetch_log s) (the_request endpoint opts s)) then evict else id)
        (s\<lparr>fetch_log := fetch_log s @ [the_request endpoint opts s]\<rparr>))"
  by (cases "fetch e (fetch_log s) (the_request endpoint opts s)")
     (simp_all add: try_block_def the_request_def Let_def evict_def)

lemma apiRequest_unfold:
  "apiRequest e endpoint opts retries s =
     (if \<not> is_set (authToken (start s)) then (Inl ''Not authenticated. Please login first.'', start s)
      else case try_block e (the_url endpoint) opts retries (start s) of
          (Returned r, s1) \<Rightarrow> (r, s1)
        | (RetryNotOk, s1) \<Rightarrow>
            apiRequest e endpoint opts (retries + 1) (sleep (RETRY_DELAY * (retries + 1)) s1)
        | (Thrown m, s1) \<Rightarrow>
            if retries < MAX_RETRIES \<and> \<not> includes_str m ''Authentication''
            then apiRequest e endpoint opts (retries + 1) (sleep (RETRY_DELAY * (retries + 1)) s1)
            else (Inl m, s1))"
  by (subst apiRequest.simps) (simp only: Let_def start_def the_url_def)


lemma outcome_retryable:
  "retryable x \<Longrightarrow> retries < MAX_RETRIES \<Longrightarrow>
     outcome retries x = RetryNotOk \<or> (\<exists>m. outcome retries x = Thrown m \<and> \<not> includes_str m ''Authentication'')"
  by (cases x) (simp_all add: not_includes_msgs del: includes_str.simps)

lemma outcome_final:
  "\<not> retries < MAX_RETRIES \<or> \<not> retryable x \<Longrightarrow>
     (case outcome retries x of
        Returned r \<Rightarrow> classify x = r
      | RetryNotOk \<Rightarrow> False
      | Thrown m \<Rightarrow> classify x = Inl m \<and> (retries < MAX_RETRIES \<longrightarrow> includes_str m ''Authentication''))"
  by (cases x) (auto simp add: includes_auth_expired ok_def simp del: includes_str.simps)

lemma retryable_not_401: "retryable x \<Longrightarrow> \<not> is_401 x"
  by (cases x) simp_all

lemma apiRequest_retry:
  assumes "is_set (authToken (start s))"
    and "retries < MAX_RETRIES"
    and "retryable (fetch e (fetch_log (start s)) (the_request endpoint opts (start s)))"
  shows "apiRequest e endpoint opts retries s =
         apiRequest e endpoint opts (retries + 1)
           (sleep (RETRY_DELAY * (retries + 1))
              ((start s)\<lparr>fetch_log := fetch_log (start s) @ [the_request endpoint opts (start s)]\<rparr>))"
  using outcome_retryable [OF assms(3) assms(2)] assms(1,2) retryable_not_401 [OF assms(3)]
  by (subst apiRequest_unfold) (auto simp add: try_block_alt simp del: includes_str.simps)

lemma apiRequest_final:
  assumes "is_set (authToken (start s))"
    and "\<not> retries < MAX_RETRIES \<or> \<not> retryable (fetch e (fetch_log (start s)) (the_request endpoint opts (start s)))"
  shows "apiRequest e endpoint opts retries s =
         (classify (fetch e (fetch_log (start s)) (the_request endpoint opts (start s))),
          (if is_401 (fetch e (fetch_log (start s)) (the_request endpoint opts (start s))) then evict else id)
            ((start s)\<lparr>fetch_log := fetch_log (start s) @ [the_request endpoint opts (start s)]\<rparr>))"
  using outcome_final [OF assms(2)] assms(1)
  by (subst apiRequest_unfold)
     (auto simp add: try_block_alt split: try_outcome.splits simp del: includes_str.simps)


lemma start_fields [simp]:
  "fetch_log (start s) = fetch_log s"
  "sleeps (start s) = sleeps s"
  "now (start s) = now s"
  "currentUpload (start s) = currentUpload s"
  "session_writes (start s) = session_writes s"
  "sent (start s) = sent s"
  "delivered (start s) = delivered s"
  "stored_github_token (start s) = stored_github_token s"
  "stored_auth_method (start s) = stored_auth_method s"
  by (simp_all add: start_def loadStoredToken_def)

lemma start_idem: "is_set (authToken s) \<Longrightarrow> start s = s"
  by (simp add: start_def)

lemma delays_one [simp]: "delays retries (Suc 0) = []"
  by (simp add: delays_def)

lemma delays_Suc:
  "1 \<le> n \<Longrightarrow> delays retries (Suc n) = RETRY_DELAY * (retries + 1) # delays (retries + 1) n"
  using upt_conv_Cons [of "retries + 1" "retries + Suc n"]
  by (simp add: delays_def del: upt_Suc)

lemma after_call_one:
  "after_call s0 q retries (Suc 0) = s0\<lparr>fetch_log := fetch_log s0 @ [q]\<rparr>"
  by (simp add: after_call_def)

lemma after_call_Suc:
  "1 \<le> n \<Longrightarrow>
   after_call (sleep (RETRY_DELAY * (retries + 1)) (s0\<lparr>fetch_log := fetch_log s0 @ [q]\<rparr>)) q (retries + 1) n
     = after_call s0 q retries (Suc n)"
  by (simp add: after_call_def sleep_def delays_Suc replicate_app_Cons_same)

lemma responses_nonempty: "responses e l qs = [] \<longleftrightarrow> qs = []"
  by (cases qs) simp_all

lemma apiRequest_trace:
  assumes "is_set (authToken (start s))" and "retries \<le> MAX_RETRIES"
  shows "\<exists>n. 1 \<le> n \<and> retries + n \<le> MAX_RETRIES + 1 \<and>
     list_all retryable (butlast (responses e (fetch_log s) (replicate n (the_request endpoint opts (start s))))) \<and>
     (retries + n = MAX_RETRIES + 1 \<or>
        \<not> retryable (last (responses e (fetch_log s) (replicate n (the_request endpoint opts (start s)))))) \<and>
     apiRequest e endpoint opts retries s =
       (classify (last (responses e (fetch_log s) (replicate n (the_request endpoint opts (start s))))),
        (if is_401 (last (responses e (fetch_log s) (replicate n (the_request endpoint opts (start s)))))
         then evict else id) (after_call (start s) (the_request endpoint opts (start s)) retries n))"
  using assms
proof (induction "MAX_RETRIES - retries" arbitrary: retries s)
  case 0
  then have fin: "\<not> retries < MAX_RETRIES" by simp
  have eq: "retries + Suc 0 = MAX_RETRIES + 1" using fin "0.prems"(2) by simp
  have "apiRequest e endpoint opts retries s =
          (classify (fetch e (fetch_log s) (the_request endpoint opts (start s))),
           (if is_401 (fetch e (fetch_log s) (the_request endpoint opts (start s))) then evict else id)
              (after_call (start s) (the_request endpoint opts (start s)) retries (Suc 0)))"
    using apiRequest_final [where s = s and retries = retries and e = e and endpoint = endpoint and opts = opts] fin "0.prems"(1)
    by (simp add: after_call_one)
  then show ?case
    using eq by (intro exI [of _ "Suc 0"]) simp
next
  case (Suc k)
  define q where "q = the_request endpoint opts (start s)"
  define x where "x = fetch e (fetch_log s) q"
  show ?case
  proof (cases "retryable x")
    case False
    have "apiRequest e endpoint opts retries s =
          (classify x, (if is_401 x then evict else id) (after_call (start s) q retries (Suc 0)))"
      using apiRequest_final [where s = s and retries = retries and e = e and endpoint = endpoint and opts = opts] False Suc.prems(1)
      by (simp add: q_def x_def after_call_one)
    then show ?thesis
      unfolding q_def [symmetric]
      using False Suc.prems(2)
      by (intro exI [of _ "Suc 0"]) (simp add: x_def [symmetric])
  next
    case True
    have lt: "retries < MAX_RETRIES" using Suc.hyps(2) by simp
    define s1 where "s1 = sleep (RETRY_DELAY * (retries + 1)) ((start s)\<lparr>fetch_log := fetch_log (start s) @ [q]\<rparr>)"
    have tok: "authToken s1 = authToken (start s)" by (simp add: s1_def sleep_def)
    then have st: "start s1 = s1" using Suc.prems(1) by (simp add: start_idem)
    have step: "apiRequest e endpoint opts retries s = apiRequest e endpoint opts (retries + 1) s1"
      using apiRequest_retry [where s = s and retries = retries and e = e and endpoint = endpoint and opts = opts] True Suc.prems(1) lt
      by (simp add: q_def x_def s1_def)
    have q1: "the_request endpoint opts (start s1) = q"
      unfolding st by (simp add: the_request_def q_def tok)
    have log1: "fetch_log s1 = fetch_log s @ [q]" by (simp add: s1_def sleep_def)
    have k: "k = MAX_RETRIES - (retries + 1)" using Suc.hyps(2) by simp
    have set1: "is_set (authToken (start s1))" using tok Suc.prems(1) unfolding st by simp
    have le1: "retries + 1 \<le> MAX_RETRIES" using lt by simp
    define rs where "rs n = responses e (fetch_log s @ [q]) (replicate n q)" for n
    from Suc.hyps(1) [OF k set1 le1]
    obtain n where n: "1 \<le> n" "retries + 1 + n \<le> MAX_RETRIES + 1"
      and tr1: "list_all retryable (butlast (rs n))"
      and tr2: "retries + 1 + n = MAX_RETRIES + 1 \<or> \<not> retryable (last (rs n))"
      and tr3: "apiRequest e endpoint opts (retries + 1) s1 =
           (classify (last (rs n)), (if is_401 (last (rs n)) then evict else id) (after_call (start s1) q (retries + 1) n))"
      unfolding q1 log1 rs_def by blast
    have ne: "rs n \<noteq> []"
      using n(1) by (simp add: responses_nonempty rs_def)
    have "after_call s1 q (retries + 1) n = after_call (start s) q retries (Suc n)"
      unfolding s1_def by (rule after_call_Suc [OF n(1)])
    then have ac: "after_call (start s1) q (retries + 1) n = after_call (start s) q retries (Suc n)"
      by (simp only: st)
    have rsS: "responses e (fetch_log s) (replicate (Suc n) q) = x # rs n"
      by (simp add: rs_def x_def)
    have "list_all retryable (butlast (x # rs n))" using tr1 True ne by simp
    moreover have "retries + Suc n = MAX_RETRIES + 1 \<or> \<not> retryable (last (x # rs n))"
      using tr2 ne by simp
    moreover have "apiRequest e endpoint opts retries s =
       (classify (last (x # rs n)), (if is_401 (last (x # rs n)) then evict else id) (after_call (start s) q retries (Suc n)))"
      using step tr3 ac ne by simp
    moreover have "1 \<le> Suc n" "retries + Suc n \<le> MAX_RETRIES + 1" using n by simp_all
    ultimately show ?thesis
      unfolding q_def [symmetric] rsS [symmetric]
      by (intro exI [of _ "Suc n"]) blast
  qed
qed

lemma responses_append:
  "responses e l (xs @ ys) = responses e l xs @ responses e (l @ xs) ys"
  by (induction xs arbitrary: l) simp_all

lemma length_responses [simp]: "length (responses e l qs) = length qs"
  by (induction qs arbitrary: l) simp_all

lemma no_credential_start: "no_credential s \<Longrightarrow> start s = s"
  by (simp add: no_credential_def start_def loadStoredToken_def)

lemma start_no_token: "\<not> is_set (authToken (start s)) \<Longrightarrow> no_credential s \<and> start s = s"
  by (auto simp: no_credential_def start_def loadStoredToken_def split: if_splits)

lemma evict_fields [simp]:
  "authToken (evict s) = None"
  "stored_github_token (evict s) = None"
  "fetch_log (evict s) = fetch_log s"
  "sleeps (evict s) = sleeps s"
  "now (evict s) = now s"
  "currentUpload (evict s) = currentUpload s"
  "session_writes (evict s) = session_writes s"
  "sent (evict s) = sent s"
  "delivered (evict s) = delivered s"
  by (simp_all add: evict_def)

lemma after_call_fields [simp]:
  "authToken (after_call s q r n) = authToken s"
  "stored_github_token (after_call s q r n) = stored_github_token s"
  "fetch_log (after_call s q r n) = fetch_log s @ replicate n q"
  "sleeps (after_call s q r n) = sleeps s @ delays r n"
  "now (after_call s q r n) = now s + sum_list (delays r n)"
  "currentUpload (after_call s q r n) = currentUpload s"
  "session_writes (after_call s q r n) = session_writes s"
  "sent (after_call s q r n) = sent s"
  "delivered (after_call s q r n) = delivered s"
  by (simp_all add: after_call_def)

lemma apiRequest_no_credential:
  "\<not> is_set (authToken (start s)) \<Longrightarrow>
   apiRequest e endpoint opts retries s = (Inl ''Not authenticated. Please login first.'', start s)"
  by (subst apiRequest_unfold) simp

text \<open>What one call of the gateway, started with no retries used, has done when it ends.\<close>

lemma apiRequest_summary:
  assumes "apiRequest e endpoint opts 0 s = (res, s')"
  shows "\<exists>n. n \<le> MAX_RETRIES + 1
     \<and> fetch_log s' = fetch_log s @ replicate n (the_request endpoint opts (start s))
     \<and> sleeps s' = sleeps s @ delays 0 n
     \<and> now s' = now s + sum_list (delays 0 n)
     \<and> currentUpload s' = currentUpload s \<and> session_writes s' = session_writes s
     \<and> sent s' = sent s \<and> delivered s' = delivered s
     \<and> list_all retryable (butlast (responses e (fetch_log s) (replicate n (the_request endpoint opts (start s)))))
     \<and> (if n = 0
         then no_credential s \<and> s' = s \<and> res = Inl ''Not authenticated. Please login first.''
         else is_set (authToken (start s))
            \<and> res = classify (last (responses e (fetch_log s) (replicate n (the_request endpoint opts (start s)))))
            \<and> (n = MAX_RETRIES + 1 \<or> \<not> retryable (last (responses e (fetch_log s) (replicate n (the_request endpoint opts (start s))))))
            \<and> (if is_401 (last (responses e (fetch_log s) (replicate n (the_request endpoint opts (start s)))))
                then authToken s' = None \<and> stored_github_token s' = None
                else authToken s' = authToken (start s) \<and> stored_github_token s' = stored_github_token s))"
proof (cases "is_set (authToken (start s))")
  case False
  then have nc: "no_credential s" and st: "start s = s" using start_no_token by blast+
  have "apiRequest e endpoint opts 0 s = (Inl ''Not authenticated. Please login first.'', s)"
    using apiRequest_no_credential [OF False, of e endpoint opts 0] by (simp add: st)
  then have "res = Inl ''Not authenticated. Please login first.''" "s' = s"
    using assms by simp_all
  then show ?thesis
    using nc by (intro exI [of _ 0]) (simp add: delays_def)
next
  case True
  define q where "q = the_request endpoint opts (start s)"
  from apiRequest_trace [OF True, of 0 e endpoint opts]
  obtain n where n: "1 \<le> n" "n \<le> MAX_RETRIES + 1"
    and b: "list_all retryable (butlast (responses e (fetch_log s) (replicate n q)))"
    and l: "n = MAX_RETRIES + 1 \<or> \<not> retryable (last (responses e (fetch_log s) (replicate n q)))"
    and r: "apiRequest e endpoint opts 0 s =
       (classify (last (responses e (fetch_log s) (replicate n q))),
        (if is_401 (last (responses e (fetch_log s) (replicate n q))) then evict else id)
          (after_call (start s) q 0 n))"
    unfolding q_def by auto
  have res: "res = classify (last (responses e (fetch_log s) (replicate n q)))"
    and s': "s' = (if is_401 (last (responses e (fetch_log s) (replicate n q))) then evict else id)
          (after_call (start s) q 0 n)"
    using r assms by simp_all
  have n0: "n \<noteq> 0" using n(1) by simp
  show ?thesis
    unfolding q_def [symmetric]
    using n(2) b l res n0 True
    by (intro exI [of _ n]) (simp add: s')
qed

lemma getFileContent_alt:
  "getFileContent e own rep p br s =
     (case apiRequest e (lookup_endpoint e own rep p br) no_options 0 s of
        (Inr j, s1) \<Rightarrow> (Inr j, s1)
      | (Inl m, s1) \<Rightarrow> if not_found_message m then (Inr JNull, s1) else (Inl m, s1))"
  unfolding getFileContent_def lookup_endpoint_def no_options_def not_found_message_def Let_def
  by (rule refl)

lemma uploadFile_alt:
  "uploadFile e own rep p c message br sha s =
     apiRequest e (put_endpoint own rep p)
       \<lparr>opt_method = Some ''PUT'', opt_body = Some (put_body message c br sha)\<rparr> 0 s"
  by (cases sha) (simp_all add: uploadFile_def put_endpoint_def put_body_def Let_def)

lemma not_found_messages:
  "not_found_message ''Resource not found''"
  "\<not> not_found_message ''Not authenticated. Please login first.''"
  "\<not> not_found_message ''Authentication expired. Please login again.''"
  "\<not> not_found_message ''GitHub API rate limit exceeded. Please try again later.''"
  "\<not> not_found_message ''Permission denied. Check your token permissions.''"
  by code_simp+

lemma apiRequest_quiet:
  assumes "apiRequest e endpoint opts 0 s = (res, s')"
  shows "currentUpload s' = currentUpload s" and "session_writes s' = session_writes s"
    and "sent s' = sent s" and "delivered s' = delivered s" and "now s \<le> now s'"
    and "prefix (fetch_log s) (fetch_log s')"
    and "list_all (\<lambda>q. req_method q = opt_method opts \<and> req_body q = opt_body opts) (new_requests s s')"
    and "length (new_requests s s') \<le> MAX_RETRIES + 1"
proof -
  from apiRequest_summary [OF assms]
  obtain n where n: "n \<le> MAX_RETRIES + 1"
    "fetch_log s' = fetch_log s @ replicate n (the_request endpoint opts (start s))"
    "now s' = now s + sum_list (delays 0 n)"
    "currentUpload s' = currentUpload s" "session_writes s' = session_writes s"
    "sent s' = sent s" "delivered s' = delivered s"
    by blast
  show "currentUpload s' = currentUpload s" "session_writes s' = session_writes s"
    "sent s' = sent s" "delivered s' = delivered s"
    using n by simp_all
  show "now s \<le> now s'" using n(3) by simp
  show "prefix (fetch_log s) (fetch_log s')" using n(2) by simp
  show "list_all (\<lambda>q. req_method q = opt_method opts \<and> req_body q = opt_body opts) (new_requests s s')"
    using n(2) by (simp add: new_requests_def list_all_iff the_request_def)
  show "length (new_requests s s') \<le> MAX_RETRIES + 1"
    using n(1,2) by (simp add: new_requests_def)
qed

lemma classify_401: "is_401 x \<Longrightarrow> classify x = Inl ''Authentication expired. Please login again.''"
  by (cases x) simp_all

lemma apiRequest_token_after:
  assumes "apiRequest e endpoint opts 0 s = (res, s')"
  shows "is_set (authToken s') \<or>
         (no_credential s' \<and> (res = Inl ''Not authenticated. Please login first.''
                              \<or> res = Inl ''Authentication expired. Please login again.''))"
proof -
  from apiRequest_summary [OF assms]
  obtain n where n:
    "if n = 0
         then no_credential s \<and> s' = s \<and> res = Inl ''Not authenticated. Please login first.''
         else is_set (authToken (start s))
            \<and> res = classify (last (responses e (fetch_log s) (replicate n (the_request endpoint opts (start s)))))
            \<and> (n = MAX_RETRIES + 1 \<or> \<not> retryable (last (responses e (fetch_log s) (replicate n (the_request endpoint opts (start s))))))
            \<and> (if is_401 (last (responses e (fetch_log s) (replicate n (the_request endpoint opts (start s)))))
                then authToken s' = None \<and> stored_github_token s' = None
                else authToken s' = authToken (start s) \<and> stored_github_token s' = stored_github_token s)"
    by blast
  show ?thesis
  proof (cases "n = 0")
    case True
    then show ?thesis using n by simp
  next
    case False
    show ?thesis
    proof (cases "is_401 (last (responses e (fetch_log s) (replicate n (the_request endpoint opts (start s)))))")
      case True
      then show ?thesis using n False classify_401 [OF True] by (simp add: no_credential_def)
    next
      case no: False
      then show ?thesis using n False by simp
    qed
  qed
qed

lemma apiRequest_logged_out:
  "no_credential s \<Longrightarrow> apiRequest e endpoint opts retries s = (Inl ''Not authenticated. Please login first.'', s)"
  using apiRequest_no_credential [of s e endpoint opts retries]
  by (simp add: no_credential_start no_credential_def)


lemma new_requests_trans:
  "prefix (fetch_log s) (fetch_log s1) \<Longrightarrow> prefix (fetch_log s1) (fetch_log s2) \<Longrightarrow>
   new_requests s s2 = new_requests s s1 @ new_requests s1 s2"
  by (auto simp: new_requests_def prefix_def)

lemma new_requests_log: "prefix (fetch_log s) (fetch_log s') \<Longrightarrow> fetch_log s' = fetch_log s @ new_requests s s'"
  by (auto simp: new_requests_def prefix_def)

lemma getFileContent_quiet:
  assumes "getFileContent e own rep p br s = (res, s')"
  shows "currentUpload s' = currentUpload s" and "session_writes s' = session_writes s"
    and "sent s' = sent s" and "delivered s' = delivered s" and "now s \<le> now s'"
    and "prefix (fetch_log s) (fetch_log s')"
    and "list_all (\<lambda>q. req_method q = None \<and> req_body q = None) (new_requests s s')"
proof -
  obtain r where a: "apiRequest e (lookup_endpoint e own rep p br) no_options 0 s = (r, s')"
    using assms by (auto simp: getFileContent_alt split: prod.splits sum.splits if_splits)
  show "currentUpload s' = currentUpload s" "session_writes s' = session_writes s"
    "sent s' = sent s" "delivered s' = delivered s" "now s \<le> now s'"
    "prefix (fetch_log s) (fetch_log s')"
    using apiRequest_quiet [OF a] by simp_all
  show "list_all (\<lambda>q. req_method q = None \<and> req_body q = None) (new_requests s s')"
    using apiRequest_quiet(7) [OF a] by (simp add: no_options_def)
qed

lemma getFileContent_Inr:
  assumes "getFileContent e own rep p br s = (Inr ex, s')"
  shows "is_set (authToken s')"
proof -
  obtain r where a: "apiRequest e (lookup_endpoint e own rep p br) no_options 0 s = (r, s')"
    and r: "r = Inr ex \<or> (\<exists>m. r = Inl m \<and> not_found_message m)"
    using assms by (auto simp: getFileContent_alt split: prod.splits sum.splits if_splits)
  show ?thesis
    using apiRequest_token_after [OF a] r by (auto simp: not_found_messages)
qed

lemma getFileContent_logged_out:
  "no_credential s \<Longrightarrow>
   getFileContent e own rep p br s = (Inl ''Not authenticated. Please login first.'', s)"
  by (simp add: getFileContent_alt apiRequest_logged_out not_found_messages)

lemma uploadFile_quiet:
  assumes "uploadFile e own rep p c message br sha s = (res, s')"
  shows "currentUpload s' = currentUpload s" and "session_writes s' = session_writes s"
    and "sent s' = sent s" and "delivered s' = delivered s" and "now s \<le> now s'"
    and "prefix (fetch_log s) (fetch_log s')"
    and "list_all (\<lambda>q. req_method q = Some ''PUT'' \<and> req_body q = Some (put_body message c br sha))
           (new_requests s s')"
  using apiRequest_quiet [OF assms [unfolded uploadFile_alt]] by simp_all

text \<open>The effect of the \<^verbatim>\<open>catch\<close> block and of the success path on everything but the network.\<close>

lemma on_error_effect:
  assumes "on_error e n f m (s, res, errs) = (s', res', errs')"
  shows "res' = res" and "errs' = errs @ [\<lparr>e_file = path f, e_status = ''error'', e_error = m\<rparr>]"
    and "fetch_log s' = fetch_log s" and "sleeps s' = sleeps s" and "now s' = now s"
    and "authToken s' = authToken s" and "stored_github_token s' = stored_github_token s"
    and "sent s' = sent s @ [\<lparr>p_file = path f, p_status = ''error'', p_error = Some m,
                              p_current = length res + length errs + 1, p_total = n\<rparr>]"
    and "currentUpload s' = (currentUpload s)\<lparr>current := length res + length errs + 1,
                              cur_file := path f, errors := errs'\<rparr>"
    and "session_writes s' = session_writes s @ (if has_session_storage e then [currentUpload s'] else [])"
  using assms by (auto simp: on_error_def persist_def sendMessage_def Let_def)

lemma upload_step_cases [consumes 1, case_names lookup_failed upload_failed uploaded]:
  assumes "upload_step e own rep n message br f (s, res, errs) = (s', res', errs')"
  obtains
    (lookup_failed) m s1 where
      "getFileContent e own rep (path f) br s = (Inl m, s1)"
      "on_error e n f m (s1, res, errs) = (s', res', errs')"
  | (upload_failed) ex s1 m s2 where
      "getFileContent e own rep (path f) br s = (Inr ex, s1)"
      "uploadFile e own rep (path f) (content f) (commit_message message f) br (get_sha ex) s1 = (Inl m, s2)"
      "on_error e n f m (s2, res, errs) = (s', res', errs')"
  | (uploaded) ex s1 j s2 where
      "getFileContent e own rep (path f) br s = (Inr ex, s1)"
      "uploadFile e own rep (path f) (content f) (commit_message message f) br (get_sha ex) s1 = (Inr j, s2)"
      "res' = res @ [\<lparr>r_file = path f, r_status = ''success'', r_result = j\<rparr>]"
      "errs' = errs"
      "s' = sendMessage e \<lparr>p_file = path f, p_status = ''success'', p_error = None,
                             p_current = length res + 1, p_total = n\<rparr>
              (persist e (s2\<lparr>currentUpload := (currentUpload s2)
                   \<lparr>current := length res + 1 + length errs, cur_file := path f, results := res'\<rparr>\<rparr>))"
  using assms
  by (auto simp: upload_step_def commit_message_def Let_def split: prod.splits sum.splits)

lemma upload_step_report:
  assumes "upload_step e own rep n message br f (s, res, errs) = (s', res', errs')"
  shows "(\<exists>j. res' = res @ [\<lparr>r_file = path f, r_status = ''success'', r_result = j\<rparr>] \<and> errs' = errs)
       \<or> (\<exists>m. res' = res \<and> errs' = errs @ [\<lparr>e_file = path f, e_status = ''error'', e_error = m\<rparr>])"
    and "\<exists>p. sent s' = sent s @ [p] \<and> p_file p = path f \<and> p_total p = n"
    and "prefix (fetch_log s) (fetch_log s')"
    and "list_all get_or_put (new_requests s s')"
    and "now s \<le> now s'"
proof -
  have "((\<exists>j. res' = res @ [\<lparr>r_file = path f, r_status = ''success'', r_result = j\<rparr>] \<and> errs' = errs)
       \<or> (\<exists>m. res' = res \<and> errs' = errs @ [\<lparr>e_file = path f, e_status = ''error'', e_error = m\<rparr>]))
    \<and> (\<exists>p. sent s' = sent s @ [p] \<and> p_file p = path f \<and> p_total p = n)
    \<and> prefix (fetch_log s) (fetch_log s')
    \<and> list_all get_or_put (new_requests s s')
    \<and> now s \<le> now s'"
    using assms
  proof (cases rule: upload_step_cases)
    case (lookup_failed m s1)
    note g = getFileContent_quiet [OF lookup_failed(1)]
    note h = on_error_effect [OF lookup_failed(2)]
    have "new_requests s s' = new_requests s s1"
      using h(3) by (simp add: new_requests_def)
    then have "list_all get_or_put (new_requests s s')"
      using g(7) by (simp add: list_all_iff get_or_put_def)
    then show ?thesis
      using g(3,5,6) h(1,2,3,5,8) by simp
  next
    case (upload_failed ex s1 m s2)
    note g = getFileContent_quiet [OF upload_failed(1)]
    note u = uploadFile_quiet [OF upload_failed(2)]
    note h = on_error_effect [OF upload_failed(3)]
    have p: "prefix (fetch_log s) (fetch_log s2)" using g(6) u(6) by (rule prefix_order.trans)
    have "new_requests s s' = new_requests s s1 @ new_requests s1 s2"
      using new_requests_trans [OF g(6) u(6)] h(3) by (simp add: new_requests_def)
    then have "list_all get_or_put (new_requests s s')"
      using g(7) u(7) by (auto simp: list_all_iff get_or_put_def)
    then show ?thesis
      using p g(3,5) u(3,5) h(1,2,3,5,8) by simp
  next
    case (uploaded ex s1 j s2)
    note g = getFileContent_quiet [OF uploaded(1)]
    note u = uploadFile_quiet [OF uploaded(2)]
    have p: "prefix (fetch_log s) (fetch_log s2)" using g(6) u(6) by (rule prefix_order.trans)
    have l: "fetch_log s' = fetch_log s2" and t: "now s' = now s2"
      and sn: "sent s' = sent s2 @ [\<lparr>p_file = path f, p_status = ''success'', p_error = None,
                             p_current = length res + 1, p_total = n\<rparr>]"
      by (simp_all add: uploaded(5) sendMessage_def persist_def Let_def)
    have "new_requests s s' = new_requests s s1 @ new_requests s1 s2"
      using new_requests_trans [OF g(6) u(6)] l by (simp add: new_requests_def)
    then have "list_all get_or_put (new_requests s s')"
      using g(7) u(7) by (auto simp: list_all_iff get_or_put_def)
    then show ?thesis
      using p g(3,5) u(3,5) l t sn uploaded(3,4) by simp
  qed
  then show "(\<exists>j. res' = res @ [\<lparr>r_file = path f, r_status = ''success'', r_result = j\<rparr>] \<and> errs' = errs)
       \<or> (\<exists>m. res' = res \<and> errs' = errs @ [\<lparr>e_file = path f, e_status = ''error'', e_error = m\<rparr>])"
    and "\<exists>p. sent s' = sent s @ [p] \<and> p_file p = path f \<and> p_total p = n"
    and "prefix (fetch_log s) (fetch_log s')"
    and "list_all get_or_put (new_requests s s')"
    and "now s \<le> now s'"
    by blast+
qed

lemma batch_loop_append:
  "batch_loop e own rep n message br (xs @ ys) st =
   batch_loop e own rep n message br ys (batch_loop e own rep n message br xs st)"
  by (induction xs arbitrary: st) simp_all

lemma batch_loop_report:
  assumes "batch_loop e own rep n message br fs (s, res, errs) = (s', res', errs')"
  shows "length res' + length errs' = length res + length errs + length fs
     \<and> prefix res res' \<and> prefix errs errs'
     \<and> subseq (map r_file (drop (length res) res')) (map path fs)
     \<and> subseq (map e_file (drop (length errs) errs')) (map path fs)
     \<and> map p_file (drop (length (sent s)) (sent s')) = map path fs
     \<and> list_all (\<lambda>p. p_total p = n) (drop (length (sent s)) (sent s'))
     \<and> prefix (sent s) (sent s')
     \<and> prefix (fetch_log s) (fetch_log s')
     \<and> list_all get_or_put (new_requests s s')
     \<and> now s \<le> now s'"
  using assms
proof (induction fs arbitrary: s res errs)
  case Nil
  then show ?case by (simp add: new_requests_def)
next
  case (Cons f fs)
  obtain s1 res1 errs1 where st: "upload_step e own rep n message br f (s, res, errs) = (s1, res1, errs1)"
    by (cases "upload_step e own rep n message br f (s, res, errs)") auto
  note r = upload_step_report [OF st]
  have rest: "batch_loop e own rep n message br fs (s1, res1, errs1) = (s', res', errs')"
    using Cons.prems st by simp
  note ih = Cons.IH [OF rest]
  from r(2) obtain p where p: "sent s1 = sent s @ [p]" "p_file p = path f" "p_total p = n" by blast
  have snt: "prefix (sent s1) (sent s')" using ih by blast
  then obtain more where more: "sent s' = sent s @ p # more"
    using p(1) by (auto simp: prefix_def)
  have d1: "drop (length (sent s1)) (sent s') = more" using more p(1) by simp
  have d0: "drop (length (sent s)) (sent s') = p # more" using more by simp
  have nr: "new_requests s s' = new_requests s s1 @ new_requests s1 s'"
    using new_requests_trans r(3) ih by blast
  have c1: "length res' + length errs' = length res + length errs + length (f # fs)"
    using ih r(1) by auto
  have c2: "prefix res res'" "prefix errs errs'"
    using ih r(1) by (auto intro: prefix_order.trans append_prefixD)
  have c3: "subseq (map r_file (drop (length res) res')) (map path (f # fs))"
  proof -
    from ih have a: "subseq (map r_file (drop (length res1) res')) (map path fs)"
      and b: "prefix res1 res'" by blast+
    from r(1) show ?thesis
    proof
      assume "\<exists>j. res1 = res @ [\<lparr>r_file = path f, r_status = ''success'', r_result = j\<rparr>] \<and> errs1 = errs"
      then obtain j where j: "res1 = res @ [\<lparr>r_file = path f, r_status = ''success'', r_result = j\<rparr>]" by blast
      obtain tl where tl: "res' = res1 @ tl" using b by (auto simp: prefix_def)
      show ?thesis using a by (simp add: tl j)
    next
      assume "\<exists>m. res1 = res \<and> errs1 = errs @ [\<lparr>e_file = path f, e_status = ''error'', e_error = m\<rparr>]"
      then have "res1 = res" by blast
      then show ?thesis using a by (auto intro: list_emb_Cons)
    qed
  qed
  have c4: "subseq (map e_file (drop (length errs) errs')) (map path (f # fs))"
  proof -
    from ih have a: "subseq (map e_file (drop (length errs1) errs')) (map path fs)"
      and b: "prefix errs1 errs'" by blast+
    from r(1) show ?thesis
    proof
      assume "\<exists>j. res1 = res @ [\<lparr>r_file = path f, r_status = ''success'', r_result = j\<rparr>] \<and> errs1 = errs"
      then have "errs1 = errs" by blast
      then show ?thesis using a by (auto intro: list_emb_Cons)
    next
      assume "\<exists>m. res1 = res \<and> errs1 = errs @ [\<lparr>e_file = path f, e_status = ''error'', e_error = m\<rparr>]"
      then obtain m where m: "errs1 = errs @ [\<lparr>e_file = path f, e_status = ''error'', e_error = m\<rparr>]" by blast
      obtain tl where tl: "errs' = errs1 @ tl" using b by (auto simp: prefix_def)
      show ?thesis using a by (simp add: tl m)
    qed
  qed
  have c5: "map p_file (drop (length (sent s)) (sent s')) = map path (f # fs)"
    using ih d1 d0 p(2) by simp
  have c6: "list_all (\<lambda>p. p_total p = n) (drop (length (sent s)) (sent s'))"
    using ih d1 d0 p(3) by simp
  have c7: "prefix (sent s) (sent s')" using more by simp
  have c8: "prefix (fetch_log s) (fetch_log s')"
    using r(3) ih by (blast intro: prefix_order.trans)
  have c9: "list_all get_or_put (new_requests s s')"
    using r(4) ih nr by simp
  have c10: "now s \<le> now s'" using r(5) ih by (blast intro: order_trans)
  show ?case using c1 c2 c3 c4 c5 c6 c7 c8 c9 c10 by blast
qed

lemma init_session_fields:
  "fetch_log (init_session e own rep files br s) = fetch_log s"
  "sent (init_session e own rep files br s) = sent s"
  "now (init_session e own rep files br s) = now s"
  "authToken (init_session e own rep files br s) = authToken s"
  "stored_github_token (init_session e own rep files br s) = stored_github_token s"
  by (simp_all add: init_session_def persist_def)

lemma finalize_session_fields:
  assumes "finalize_session e (s, res, errs) = ((res', errs'), s')"
  shows "res' = res" and "errs' = errs" and "fetch_log s' = fetch_log s" and "sent s' = sent s"
    and "now s' = now s"
  using assms by (auto simp: finalize_session_def persist_def Let_def)

lemma apiRequest_eval:
  assumes "is_set (authToken s)"
  shows "apiRequest e endpoint opts retries s =
     (if retries < MAX_RETRIES \<and> retryable (fetch e (fetch_log s) (the_request endpoint opts s))
      then apiRequest e endpoint opts (Suc retries)
             (sleep (RETRY_DELAY * Suc retries) (s\<lparr>fetch_log := fetch_log s @ [the_request endpoint opts s]\<rparr>))
      else (classify (fetch e (fetch_log s) (the_request endpoint opts s)),
            (if is_401 (fetch e (fetch_log s) (the_request endpoint opts s)) then evict else id)
              (s\<lparr>fetch_log := fetch_log s @ [the_request endpoint opts s]\<rparr>)))"
proof -
  have st: "start s = s" using assms by (rule start_idem)
  show ?thesis
  proof (cases "retries < MAX_RETRIES \<and> retryable (fetch e (fetch_log s) (the_request endpoint opts s))")
    case True
    then show ?thesis
      using apiRequest_retry [where s = s and retries = retries and e = e and endpoint = endpoint and opts = opts] assms
      by (simp add: st)
  next
    case False
    then show ?thesis
      using apiRequest_final [where s = s and retries = retries and e = e and endpoint = endpoint and opts = opts] assms
      by (simp only: st if_False) blast
  qed
qed

text \<open>The rules that run the model on a concrete browser and state.\<close>

lemmas run_simps =
  apiRequest_eval apiRequest_logged_out no_credential_def getFileContent_alt uploadFile_alt
  upload_step_def on_error_def persist_def sendMessage_def sleep_def evict_def the_request_def
  browser_def answer_def ok_def MAX_RETRIES_def RETRY_DELAY_def not_found_messages Let_def
  batchUpload_def init_session_def finalize_session_def default_branch_def
  logged_in_def idle_session_def no_options_def

lemma show_nat_500: "show_nat 500 = ''500''"
  by code_simp

lemma show_nat_409: "show_nat 409 = ''409''"
  by code_simp

lemma new_requests_replicate:
  "fetch_log s' = fetch_log s @ replicate n q \<Longrightarrow> new_requests s s' = replicate n q"
  by (simp add: new_requests_def)

lemma apiRequest_sends:
  assumes "apiRequest e endpoint opts 0 s = (res, s')" and "is_set (authToken s)"
  shows "new_requests s s' \<noteq> []"
proof -
  from apiRequest_summary [OF assms(1)]
  obtain n where log: "fetch_log s' = fetch_log s @ replicate n (the_request endpoint opts (start s))"
    and fin: "n = 0 \<longrightarrow> no_credential s"
    by (metis (no_types, lifting))
  have "n \<noteq> 0" using fin assms(2) by (auto simp: no_credential_def)
  then show ?thesis
    using new_requests_replicate [OF log] by auto
qed

lemma put_body_absent:
  "put_body message c br None = JObj [(''message'', JStr message), (''content'', JStr c), (''branch'', JStr br)]"
  by (simp add: put_body_def)


text \<open>When the lookup has returned, the rest of the step is the upload.\<close>

lemma upload_step_after_lookup:
  assumes "getFileContent e own rep (path f) br s = (Inr ex, s1)"
    and "upload_step e own rep n message br f (s, res, errs) = (s2, res2, errs2)"
  shows "\<exists>r s3. uploadFile e own rep (path f) (content f) (commit_message message f) br (get_sha ex) s1 = (r, s3)
           \<and> fetch_log s2 = fetch_log s3
           \<and> (case r of
                 Inr j \<Rightarrow> res2 = res @ [\<lparr>r_file = path f, r_status = ''success'', r_result = j\<rparr>] \<and> errs2 = errs
               | Inl m \<Rightarrow> res2 = res \<and> errs2 = errs @ [\<lparr>e_file = path f, e_status = ''error'', e_error = m\<rparr>])"
  using assms(2)
proof (cases rule: upload_step_cases)
  case (lookup_failed m s1')
  then show ?thesis using assms(1) by simp
next
  case (upload_failed ex' s1' m s3)
  then have "ex' = ex" "s1' = s1" using assms(1) by simp_all
  then show ?thesis
    using upload_failed on_error_effect(1,2,3) [OF upload_failed(3)] by simp
next
  case (uploaded ex' s1' j s3)
  then have "ex' = ex" "s1' = s1" using assms(1) by simp_all
  moreover have "fetch_log s2 = fetch_log s3"
    by (simp add: uploaded(5) sendMessage_def persist_def Let_def)
  ultimately show ?thesis
    using uploaded by simp
qed

lemma not_found_message_failed_fetch: "\<not> not_found_message ''Failed to fetch''"
  by code_simp

lemma upload_requests:
  assumes "getFileContent e own rep (path f) br s = (Inr ex, s1)"
    and "upload_step e own rep n message br f (s, res, errs) = (s2, res2, errs2)"
  shows "new_requests s1 s2 \<noteq> []"
    and "list_all (\<lambda>q. req_method q = Some ''PUT'' \<and>
                    req_body q = Some (put_body (commit_message message f) (content f) br (get_sha ex)))
           (new_requests s1 s2)"
proof -
  from upload_step_after_lookup [OF assms]
  obtain r s3 where
    up: "uploadFile e own rep (path f) (content f) (commit_message message f) br (get_sha ex) s1 = (r, s3)"
    and log: "fetch_log s2 = fetch_log s3"
    by blast
  have same: "new_requests s1 s2 = new_requests s1 s3"
    by (simp add: new_requests_def log)
  have tok: "is_set (authToken s1)" using assms(1) by (rule getFileContent_Inr)
  show "new_requests s1 s2 \<noteq> []"
    unfolding same using apiRequest_sends [OF up [unfolded uploadFile_alt] tok] .
  show "list_all (\<lambda>q. req_method q = Some ''PUT'' \<and>
                    req_body q = Some (put_body (commit_message message f) (content f) br (get_sha ex)))
           (new_requests s1 s2)"
    unfolding same using uploadFile_quiet(7) [OF up] .
qed

lemma list_ex_is_401_last:
  assumes "list_all retryable (butlast rs)" and "list_ex is_401 rs"
  shows "rs \<noteq> [] \<and> is_401 (last rs) \<and> \<not> list_ex is_401 (butlast rs)"
proof -
  have ne: "rs \<noteq> []" using assms(2) by auto
  have no: "\<not> list_ex is_401 (butlast rs)"
    using assms(1) retryable_not_401 by (auto simp: list_all_iff list_ex_iff)
  have "rs = butlast rs @ [last rs]" using ne by simp
  then have "list_ex is_401 (butlast rs @ [last rs])" using assms(2) by simp
  then have "is_401 (last rs)" using no by simp
  then show ?thesis using ne no by simp
qed

text \<open>A call in which some answer was a 401.\<close>

lemma apiRequest_401:
  assumes "apiRequest e endpoint opts 0 s = (res, s')"
    and "list_ex is_401 (responses e (fetch_log s) (new_requests s s'))"
  shows "res = Inl ''Authentication expired. Please login again.''"
    and "authToken s' = None" and "stored_github_token s' = None"
    and "is_401 (last (responses e (fetch_log s) (new_requests s s')))"
    and "\<not> list_ex is_401 (butlast (responses e (fetch_log s) (new_requests s s')))"
    and "new_requests s s' \<noteq> []"
proof -
  from apiRequest_summary [OF assms(1)]
  obtain n where log: "fetch_log s' = fetch_log s @ replicate n (the_request endpoint opts (start s))"
    and bl: "list_all retryable (butlast (responses e (fetch_log s) (replicate n (the_request endpoint opts (start s)))))"
    and fin: "if n = 0
         then no_credential s \<and> s' = s \<and> res = Inl ''Not authenticated. Please login first.''
         else is_set (authToken (start s))
            \<and> res = classify (last (responses e (fetch_log s) (replicate n (the_request endpoint opts (start s)))))
            \<and> (n = MAX_RETRIES + 1 \<or> \<not> retryable (last (responses e (fetch_log s) (replicate n (the_request endpoint opts (start s))))))
            \<and> (if is_401 (last (responses e (fetch_log s) (replicate n (the_request endpoint opts (start s)))))
                then authToken s' = None \<and> stored_github_token s' = None
                else authToken s' = authToken (start s) \<and> stored_github_token s' = stored_github_token s)"
    by blast
  have nr: "new_requests s s' = replicate n (the_request endpoint opts (start s))"
    using log by (rule new_requests_replicate)
  define rs where "rs = responses e (fetch_log s) (new_requests s s')"
  have l: "rs \<noteq> [] \<and> is_401 (last rs) \<and> \<not> list_ex is_401 (butlast rs)"
    using list_ex_is_401_last bl assms(2) unfolding rs_def nr by blast
  then have n0: "n \<noteq> 0" by (auto simp: rs_def nr responses_nonempty)
  show "is_401 (last (responses e (fetch_log s) (new_requests s s')))"
    and "\<not> list_ex is_401 (butlast (responses e (fetch_log s) (new_requests s s')))"
    using l by (simp_all add: rs_def)
  show "new_requests s s' \<noteq> []" using n0 by (simp add: nr)
  have f: "res = classify (last rs)" "authToken s' = None \<and> stored_github_token s' = None"
    using fin n0 l by (simp_all add: rs_def nr)
  show "res = Inl ''Authentication expired. Please login again.''"
    using f(1) l classify_401 by simp
  show "authToken s' = None" "stored_github_token s' = None" using f(2) by simp_all
qed

lemma upload_step_logged_out:
  "no_credential s \<Longrightarrow>
   upload_step e own rep n message br f (s, res, errs)
     = on_error e n f ''Not authenticated. Please login first.'' (s, res, errs)"
  by (simp add: upload_step_def getFileContent_logged_out)

lemma batch_loop_logged_out:
  assumes "no_credential s"
    and "batch_loop e own rep n message br fs (s, res, errs) = (s', res', errs')"
  shows "fetch_log s' = fetch_log s \<and> res' = res
       \<and> errs' = errs @ map (\<lambda>g. \<lparr>e_file = path g, e_status = ''error'',
                                    e_error = ''Not authenticated. Please login first.''\<rparr>) fs
       \<and> no_credential s'"
  using assms
proof (induction fs arbitrary: s errs)
  case Nil
  then show ?case by simp
next
  case (Cons f fs)
  obtain s1 res1 errs1 where
    oe: "on_error e n f ''Not authenticated. Please login first.'' (s, res, errs) = (s1, res1, errs1)"
    by (cases "on_error e n f ''Not authenticated. Please login first.'' (s, res, errs)") auto
  note h = on_error_effect [OF oe]
  have nc: "no_credential s1" using Cons.prems(1) h(6,7) by (simp add: no_credential_def)
  have rest: "batch_loop e own rep n message br fs (s1, res, errs1) = (s', res', errs')"
    using Cons.prems(2) upload_step_logged_out [OF Cons.prems(1)] oe h(1) by simp
  show ?case
    using Cons.IH [OF nc rest] h(2,3) by simp
qed


lemma getFileContent_401:
  assumes "getFileContent e own rep p br s = (res, s')"
    and "list_ex is_401 (responses e (fetch_log s) (new_requests s s'))"
  shows "res = Inl ''Authentication expired. Please login again.''"
    and "authToken s' = None" and "stored_github_token s' = None"
    and "is_401 (last (responses e (fetch_log s) (new_requests s s')))"
    and "\<not> list_ex is_401 (butlast (responses e (fetch_log s) (new_requests s s')))"
    and "new_requests s s' \<noteq> []"
proof -
  obtain r where a: "apiRequest e (lookup_endpoint e own rep p br) no_options 0 s = (r, s')"
    and r: "res = r \<or> (\<exists>m. r = Inl m \<and> not_found_message m)"
    using assms(1) by (auto simp: getFileContent_alt split: prod.splits sum.splits if_splits)
  note h = apiRequest_401 [OF a assms(2)]
  show "res = Inl ''Authentication expired. Please login again.''"
    using r h(1) by (auto simp: not_found_messages)
  show "authToken s' = None" "stored_github_token s' = None"
    "is_401 (last (responses e (fetch_log s) (new_requests s s')))"
    "\<not> list_ex is_401 (butlast (responses e (fetch_log s) (new_requests s s')))"
    "new_requests s s' \<noteq> []"
    using h by simp_all
qed

lemma upload_step_401:
  assumes "upload_step e own rep n message br f (s, res, errs) = (s1, res1, errs1)"
    and "list_ex is_401 (responses e (fetch_log s) (new_requests s s1))"
  shows "authToken s1 = None \<and> stored_github_token s1 = None
       \<and> is_401 (last (responses e (fetch_log s) (new_requests s s1)))
       \<and> \<not> list_ex is_401 (butlast (responses e (fetch_log s) (new_requests s s1)))
       \<and> res1 = res
       \<and> errs1 = errs @ [\<lparr>e_file = path f, e_status = ''error'',
                           e_error = ''Authentication expired. Please login again.''\<rparr>]"
  using assms(1)
proof (cases rule: upload_step_cases)
  case (lookup_failed m sA)
  note oe = on_error_effect [OF lookup_failed(2)]
  have nr: "new_requests s s1 = new_requests s sA" by (simp add: new_requests_def oe(3))
  note h = getFileContent_401 [OF lookup_failed(1) assms(2) [unfolded nr]]
  show ?thesis
    using h oe(1,2,6,7) by (simp add: nr)
next
  case (upload_failed ex sA m sB)
  note g = getFileContent_quiet [OF upload_failed(1)]
  note u = uploadFile_quiet [OF upload_failed(2)]
  note oe = on_error_effect [OF upload_failed(3)]
  define rs1 where "rs1 = responses e (fetch_log s) (new_requests s sA)"
  define rs2 where "rs2 = responses e (fetch_log sA) (new_requests sA sB)"
  have nr: "new_requests s s1 = new_requests s sA @ new_requests sA sB"
    using new_requests_trans [OF g(6) u(6)] by (simp add: new_requests_def oe(3))
  have rs: "responses e (fetch_log s) (new_requests s s1) = rs1 @ rs2"
    unfolding nr responses_append rs1_def rs2_def
    using new_requests_log [OF g(6)] by simp
  have no1: "\<not> list_ex is_401 rs1"
    using getFileContent_401(1) [OF upload_failed(1)] by (auto simp: rs1_def)
  then have in2: "list_ex is_401 rs2" using assms(2) by (simp add: rs)
  note h = apiRequest_401 [OF upload_failed(2) [unfolded uploadFile_alt] in2 [unfolded rs2_def]]
  have ne: "rs2 \<noteq> []" using h(6) by (simp add: rs2_def responses_nonempty)
  have "is_401 (last (rs1 @ rs2))" using h(4) ne by (simp add: rs2_def)
  moreover have "\<not> list_ex is_401 (butlast (rs1 @ rs2))"
    using h(5) no1 ne by (simp add: butlast_append rs2_def)
  moreover have "m = ''Authentication expired. Please login again.''" using h(1) by simp
  ultimately show ?thesis
    using h(2,3) oe(1,2,6,7) by (simp add: rs)
next
  case (uploaded ex sA j sB)
  note g = getFileContent_quiet [OF uploaded(1)]
  note u = uploadFile_quiet [OF uploaded(2)]
  define rs1 where "rs1 = responses e (fetch_log s) (new_requests s sA)"
  define rs2 where "rs2 = responses e (fetch_log sA) (new_requests sA sB)"
  have l: "fetch_log s1 = fetch_log sB"
    by (simp add: uploaded(5) sendMessage_def persist_def Let_def)
  have nr: "new_requests s s1 = new_requests s sA @ new_requests sA sB"
    using new_requests_trans [OF g(6) u(6)] by (simp add: new_requests_def l)
  have rs: "responses e (fetch_log s) (new_requests s s1) = rs1 @ rs2"
    unfolding nr responses_append rs1_def rs2_def
    using new_requests_log [OF g(6)] by simp
  have no1: "\<not> list_ex is_401 rs1"
    using getFileContent_401(1) [OF uploaded(1)] by (auto simp: rs1_def)
  then have in2: "list_ex is_401 rs2" using assms(2) by (simp add: rs)
  have False
    using apiRequest_401(1) [OF uploaded(2) [unfolded uploadFile_alt] in2 [unfolded rs2_def]] by simp
  then show ?thesis ..
qed

text \<open>One file keeps the session in step with the two local arrays.\<close>

lemma upload_step_session:
  assumes "upload_step e own rep n message br f (s, res, errs) = (s', res', errs')"
    and "results (currentUpload s) = res" and "errors (currentUpload s) = errs"
  shows "results (currentUpload s') = res'" and "errors (currentUpload s') = errs'"
    and "current (currentUpload s') = length res + length errs + 1"
    and "total (currentUpload s') = total (currentUpload s)"
    and "active (currentUpload s') = active (currentUpload s)"
    and "startedAt (currentUpload s') = startedAt (currentUpload s)"
    and "session_writes s' = session_writes s @ (if has_session_storage e then [currentUpload s'] else [])"
proof -
  have "results (currentUpload s') = res' \<and> errors (currentUpload s') = errs'
      \<and> current (currentUpload s') = length res + length errs + 1
      \<and> total (currentUpload s') = total (currentUpload s)
      \<and> active (currentUpload s') = active (currentUpload s)
      \<and> startedAt (currentUpload s') = startedAt (currentUpload s)
      \<and> session_writes s' = session_writes s @ (if has_session_storage e then [currentUpload s'] else [])"
    using assms(1)
  proof (cases rule: upload_step_cases)
    case (lookup_failed m s1)
    note g = getFileContent_quiet [OF lookup_failed(1)]
    note h = on_error_effect [OF lookup_failed(2)]
    show ?thesis
      using assms(2,3) g(1,2) h(1,2,10) by (simp add: h(9))
  next
    case (upload_failed ex s1 m s2)
    note g = getFileContent_quiet [OF upload_failed(1)]
    note u = uploadFile_quiet [OF upload_failed(2)]
    note h = on_error_effect [OF upload_failed(3)]
    show ?thesis
      using assms(2,3) g(1,2) u(1,2) h(1,2,10) by (simp add: h(9))
  next
    case (uploaded ex s1 j s2)
    note g = getFileContent_quiet [OF uploaded(1)]
    note u = uploadFile_quiet [OF uploaded(2)]
    show ?thesis
      using assms(2,3) g(1,2) u(1,2) uploaded(3,4)
      by (simp add: uploaded(5) sendMessage_def persist_def Let_def)
  qed
  then show "results (currentUpload s') = res'" and "errors (currentUpload s') = errs'"
    and "current (currentUpload s') = length res + length errs + 1"
    and "total (currentUpload s') = total (currentUpload s)"
    and "active (currentUpload s') = active (currentUpload s)"
    and "startedAt (currentUpload s') = startedAt (currentUpload s)"
    and "session_writes s' = session_writes s @ (if has_session_storage e then [currentUpload s'] else [])"
    by blast+
qed

lemma batch_loop_session:
  assumes "batch_loop e own rep n message br fs (s, res, errs) = (s', res', errs')"
    and "results (currentUpload s) = res" and "errors (currentUpload s) = errs"
    and "consistent N (currentUpload s)"
  shows "results (currentUpload s') = res' \<and> errors (currentUpload s') = errs'
       \<and> consistent N (currentUpload s')
       \<and> active (currentUpload s') = active (currentUpload s)
       \<and> startedAt (currentUpload s') = startedAt (currentUpload s)
       \<and> prefix (session_writes s) (session_writes s')
       \<and> list_all (consistent N) (drop (length (session_writes s)) (session_writes s'))
       \<and> (has_session_storage e \<longrightarrow>
            map current (drop (length (session_writes s)) (session_writes s'))
              = [Suc (current (currentUpload s)) ..< Suc (current (currentUpload s) + length fs)])"
  using assms
proof (induction fs arbitrary: s res errs)
  case Nil
  then show ?case by simp
next
  case (Cons f fs)
  obtain s1 res1 errs1 where st: "upload_step e own rep n message br f (s, res, errs) = (s1, res1, errs1)"
    by (cases "upload_step e own rep n message br f (s, res, errs)") auto
  note r = upload_step_report(1) [OF st]
  note u = upload_step_session [OF st Cons.prems(2,3)]
  have cur: "current (currentUpload s) = length res + length errs" and tot: "total (currentUpload s) = N"
    using Cons.prems(2,3,4) by (simp_all add: consistent_def)
  have len: "length res1 + length errs1 = length res + length errs + 1" using r by auto
  have c1: "consistent N (currentUpload s1)"
    using u(1,2,3,4) len tot by (simp add: consistent_def)
  have rest: "batch_loop e own rep n message br fs (s1, res1, errs1) = (s', res', errs')"
    using Cons.prems(1) st by simp
  note ih = Cons.IH [OF rest u(1) u(2) c1]
  have cur1: "current (currentUpload s1) = Suc (current (currentUpload s))"
    using u(3) cur by simp
  obtain more where more: "session_writes s' = session_writes s1 @ more"
    using ih by (auto simp: prefix_def)
  have d1: "drop (length (session_writes s1)) (session_writes s') = more" using more by simp
  have d0: "drop (length (session_writes s)) (session_writes s')
        = (if has_session_storage e then [currentUpload s1] else []) @ more"
    using more u(7) by simp
  have "list_all (consistent N) (drop (length (session_writes s)) (session_writes s'))"
    using ih c1 unfolding d0 d1 by simp
  moreover have "has_session_storage e \<longrightarrow>
            map current (drop (length (session_writes s)) (session_writes s'))
              = [Suc (current (currentUpload s)) ..< Suc (current (currentUpload s) + length (f # fs))]"
  proof
    assume hs: "has_session_storage e"
    define c where "c = current (currentUpload s)"
    have m: "map current more = [Suc (Suc c) ..< Suc (Suc c + length fs)]"
      using ih hs unfolding d1 cur1 c_def by blast
    have "[Suc c ..< Suc (c + length (f # fs))] = Suc c # [Suc (Suc c) ..< Suc (Suc c + length fs)]"
      using upt_conv_Cons [of "Suc c" "Suc (c + length (f # fs))"] by (simp del: upt_Suc)
    then show "map current (drop (length (session_writes s)) (session_writes s'))
              = [Suc (current (currentUpload s)) ..< Suc (current (currentUpload s) + length (f # fs))]"
      unfolding d0 c_def [symmetric] using hs m cur1 by (simp add: c_def del: upt_Suc)
  qed
  moreover have "prefix (session_writes s) (session_writes s')"
    using more u(7) by simp
  ultimately show ?case
    using ih u(5,6) by simp
qed


lemma init_session_session:
  "currentUpload (init_session e own rep files br s) =
     \<lparr>active = True, owner = Some own, repo = Some rep, branch = br,
      total = length files, current = 0, cur_file = [], results = [], errors = [],
      startedAt = Some (now s), finishedAt = None\<rparr>"
  "session_writes (init_session e own rep files br s) =
     session_writes s @ (if has_session_storage e
                         then [currentUpload (init_session e own rep files br s)] else [])"
  by (simp_all add: init_session_def persist_def)

lemma finalize_session_session:
  assumes "finalize_session e (s, res, errs) = (report, s')"
  shows "currentUpload s' = (currentUpload s)\<lparr>active := False, finishedAt := Some (now s),
                                               results := res, errors := errs\<rparr>"
    and "session_writes s' = session_writes s @ (if has_session_storage e then [currentUpload s'] else [])"
    and "now s' = now s"
  using assms by (auto simp: finalize_session_def persist_def Let_def)

lemma startsWith_iff: "startsWith s p \<longleftrightarrow> (\<exists>b. s = p @ b)"
proof
  assume "startsWith s p"
  then have "s = p @ drop (length p) s"
    by (metis append_take_drop_id startsWith_def)
  then show "\<exists>b. s = p @ b" ..
next
  assume "\<exists>b. s = p @ b"
  then show "startsWith s p" by (auto simp: startsWith_def)
qed

lemma includes_str_iff: "includes_str s sub \<longleftrightarrow> (\<exists>a b. s = a @ sub @ b)"
proof (induction s)
  case Nil
  show ?case by simp
next
  case (Cons c cs)
  have "(\<exists>a b. c # cs = a @ sub @ b) \<longleftrightarrow> (\<exists>b. c # cs = sub @ b) \<or> (\<exists>a b. cs = a @ sub @ b)"
  proof
    assume "\<exists>a b. c # cs = a @ sub @ b"
    then obtain a b where ab: "c # cs = a @ sub @ b" by blast
    show "(\<exists>b. c # cs = sub @ b) \<or> (\<exists>a b. cs = a @ sub @ b)"
    proof (cases a)
      case Nil
      then show ?thesis using ab by auto
    next
      case (Cons x a')
      then have "cs = a' @ sub @ b" using ab by simp
      then show ?thesis by blast
    qed
  next
    assume "(\<exists>b. c # cs = sub @ b) \<or> (\<exists>a b. cs = a @ sub @ b)"
    then show "\<exists>a b. c # cs = a @ sub @ b"
    proof
      assume "\<exists>b. c # cs = sub @ b"
      then obtain b where "c # cs = [] @ sub @ b" by auto
      then show ?thesis by blast
    next
      assume "\<exists>a b. cs = a @ sub @ b"
      then obtain a b where "c # cs = (c # a) @ sub @ b" by auto
      then show ?thesis by blast
    qed
  qed
  then show ?case
    using Cons.IH by (simp add: startsWith_iff)
qed

lemma not_found_message_iff:
  "not_found_message m \<longleftrightarrow>
     includes_str (toLowerCase m) ''404'' \<or> includes_str (toLowerCase m) ''not found''"
proof -
  have "includes_str s ''not found''" if "includes_str s ''resource not found''" for s
  proof -
    from that obtain a b where "s = a @ ''resource not found'' @ b"
      unfolding includes_str_iff by blast
    then have "s = (a @ ''resource '') @ ''not found'' @ b" by simp
    then show ?thesis unfolding includes_str_iff by blast
  qed
  then show ?thesis
    unfolding not_found_message_def by blast
qed

lemma not_found_message_500:
  "not_found_message ''API request failed: 500 - upstream said 404''"
  by code_simp

section \<open>The retry budget\<close>

text \<open>
  C3, as stated: three consecutive 500 answers followed by a 200, with the retry budget
  of 3, must end in failure. The code does not do that: \<^verbatim>\<open>retries\<close> counts from 0 and
  a retry is taken while \<^verbatim>\<open>retries < MAX_RETRIES\<close>, so the fourth attempt is made, and
  its 200 is the result.
\<close>

theorem three_500_then_200_succeeds:
  "fst (apiRequest (browser three_500_then_200) ''/user'' no_options 0 logged_in) = Inr (JObj [])"
  by code_simp

text \<open>
  C3, amended: a logged-in call whose first three answers are 500 makes a fourth attempt,
  after sleeping 1000, 2000 and 3000 ms. The fourth answer decides: a 200 is returned as
  the result, and only a fourth 500 fails the call, with the generic message.
\<close>

theorem fourth_attempt_decides:
  assumes "is_set (authToken s)"
    and "q = the_request endpoint opts s"
    and "fetch e (fetch_log s) q = Response r0" and "status r0 = 500"
    and "fetch e (fetch_log s @ [q]) q = Response r1" and "status r1 = 500"
    and "fetch e (fetch_log s @ [q, q]) q = Response r2" and "status r2 = 500"
    and "fetch e (fetch_log s @ [q, q, q]) q = Response r3"
    and "apiRequest e endpoint opts 0 s = (res, s')"
  shows "fetch_log s' = fetch_log s @ [q, q, q, q]
       \<and> sleeps s' = sleeps s @ [1000, 2000, 3000]
       \<and> (status r3 = 200 \<longrightarrow> res = body_json r3)
       \<and> (status r3 = 500 \<longrightarrow> res = Inl (''API request failed: 500 - '' @ body_text r3))"
proof -
  have st: "start s = s" using assms(1) by (rule start_idem)
  define s1 where "s1 = sleep 1000 (s\<lparr>fetch_log := fetch_log s @ [q]\<rparr>)"
  define s2 where "s2 = sleep 2000 (s1\<lparr>fetch_log := fetch_log s1 @ [q]\<rparr>)"
  define s3 where "s3 = sleep 3000 (s2\<lparr>fetch_log := fetch_log s2 @ [q]\<rparr>)"
  have t1: "authToken s1 = authToken s" and l1: "fetch_log s1 = fetch_log s @ [q]"
    by (simp_all add: s1_def sleep_def)
  have t2: "authToken s2 = authToken s" and l2: "fetch_log s2 = fetch_log s @ [q, q]"
    by (simp_all add: s2_def sleep_def t1 l1)
  have t3: "authToken s3 = authToken s" and l3: "fetch_log s3 = fetch_log s @ [q, q, q]"
    by (simp_all add: s3_def sleep_def t2 l2)
  have st1: "start s1 = s1" and st2: "start s2 = s2" and st3: "start s3 = s3"
    using assms(1) by (simp_all add: start_idem t1 t2 t3)
  have q1: "the_request endpoint opts s1 = q" and q2: "the_request endpoint opts s2 = q"
    and q3: "the_request endpoint opts s3 = q"
    by (simp_all add: the_request_def assms(2) t1 t2 t3)
  have a0: "apiRequest e endpoint opts 0 s = apiRequest e endpoint opts (Suc 0) s1"
    using apiRequest_retry [where s = s and retries = 0 and e = e and endpoint = endpoint and opts = opts]
      assms(1,3,4) assms(2) [symmetric]
    by (simp add: st s1_def ok_def MAX_RETRIES_def RETRY_DELAY_def)
  have a1: "apiRequest e endpoint opts (Suc 0) s1 = apiRequest e endpoint opts (Suc (Suc 0)) s2"
    using apiRequest_retry [where s = s1 and retries = "Suc 0" and e = e and endpoint = endpoint and opts = opts]
      assms(1,5,6)
    by (simp add: st1 q1 l1 t1 s2_def ok_def MAX_RETRIES_def RETRY_DELAY_def)
  have a2: "apiRequest e endpoint opts (Suc (Suc 0)) s2 = apiRequest e endpoint opts (Suc (Suc (Suc 0))) s3"
    using apiRequest_retry [where s = s2 and retries = "Suc (Suc 0)" and e = e and endpoint = endpoint and opts = opts]
      assms(1,7,8)
    by (simp add: st2 q2 l2 t2 s3_def ok_def MAX_RETRIES_def RETRY_DELAY_def)
  have a3: "apiRequest e endpoint opts (Suc (Suc (Suc 0))) s3 =
      (classify (Response r3), (if status r3 = 401 then evict else id) (s3\<lparr>fetch_log := fetch_log s3 @ [q]\<rparr>))"
    using apiRequest_final [where s = s3 and retries = "Suc (Suc (Suc 0))" and e = e and endpoint = endpoint and opts = opts]
      assms(1,9)
    by (simp add: st3 q3 l3 t3 MAX_RETRIES_def)
  have res: "res = classify (Response r3)"
    and s': "s' = (if status r3 = 401 then evict else id) (s3\<lparr>fetch_log := fetch_log s3 @ [q]\<rparr>)"
    using assms(10) a0 a1 a2 a3 by simp_all
  have "fetch_log s' = fetch_log s @ [q, q, q, q]"
    by (simp add: s' l3 evict_def)
  moreover have "sleeps s' = sleeps s @ [1000, 2000, 3000]"
    by (simp add: s' evict_def s3_def s2_def s1_def sleep_def)
  moreover have "status r3 = 200 \<longrightarrow> res = body_json r3"
    by (simp add: res ok_def)
  moreover have "status r3 = 500 \<longrightarrow> res = Inl (''API request failed: 500 - '' @ body_text r3)"
    by (simp add: res ok_def show_nat_500)
  ultimately show ?thesis by blast
qed


text \<open>C3, witness: the amended statement at the server that answers 500, 500, 500, 200.\<close>

theorem fourth_attempt_decides_witness:
  "fst (apiRequest (browser three_500_then_200) ''/user'' no_options 0 logged_in) = Inr (JObj [])
   \<and> length (fetch_log (snd (apiRequest (browser three_500_then_200) ''/user'' no_options 0 logged_in))) = 4
   \<and> sleeps (snd (apiRequest (browser three_500_then_200) ''/user'' no_options 0 logged_in)) = [1000, 2000, 3000]"
proof -
  define q where "q = the_request ''/user'' no_options logged_in"
  define r5 where "r5 = \<lparr>status = 500, rate_remaining = None, body_text = ''Internal Server Error'', body_json = Inr JNull\<rparr>"
  define r2 where "r2 = \<lparr>status = 200, rate_remaining = None, body_text = ''{}'', body_json = Inr (JObj [])\<rparr>"
  have h1: "is_set (authToken logged_in)" by (simp add: logged_in_def)
  have l: "fetch_log logged_in = []" and sl: "sleeps logged_in = []"
    by (simp_all add: logged_in_def)
  have f0: "fetch (browser three_500_then_200) (fetch_log logged_in) q = Response r5"
    and f1: "fetch (browser three_500_then_200) (fetch_log logged_in @ [q]) q = Response r5"
    and f2: "fetch (browser three_500_then_200) (fetch_log logged_in @ [q, q]) q = Response r5"
    and f3: "fetch (browser three_500_then_200) (fetch_log logged_in @ [q, q, q]) q = Response r2"
    by (simp_all add: browser_def three_500_then_200_def answer_def l r5_def r2_def)
  have s5: "status r5 = 500" and s2: "status r2 = 200" and b2: "body_json r2 = Inr (JObj [])"
    by (simp_all add: r5_def r2_def)
  obtain res s' where a: "apiRequest (browser three_500_then_200) ''/user'' no_options 0 logged_in = (res, s')"
    by (cases "apiRequest (browser three_500_then_200) ''/user'' no_options 0 logged_in")
  show ?thesis
    using fourth_attempt_decides [OF h1 q_def f0 s5 f1 s5 f2 s5 f3 a] s2 b2
    by (simp add: a l sl)
qed

section \<open>The report of a batch\<close>

text \<open>
  C1: a batch run returns a report with one entry per file, \<open>results\<close> and \<open>errors\<close>
  together as long as \<open>files\<close>. The files are processed one after the other in the order
  given: the progress messages name the files in that order, and both lists of the report
  keep it. No failure stops the run or undoes what was done: after any number \<open>k\<close> of
  files the loop holds \<open>k\<close> entries, which are still the first entries of the final report,
  and the requests made so far are still the first requests of the whole run. The run only
  ever reads contents and puts contents: it issues no other kind of request.
\<close>

theorem batch_report_complete:
  assumes "batchUpload e own rep files message branch_arg s = ((res, errs), s')"
  shows "length res + length errs = length files
     \<and> map p_file (drop (length (sent s)) (sent s')) = map path files
     \<and> subseq (map r_file res) (map path files)
     \<and> subseq (map e_file errs) (map path files)
     \<and> (\<forall>k \<le> length files.
           case batch_loop e own rep (length files) message (default_branch branch_arg) (take k files)
                  (init_session e own rep files (default_branch branch_arg) s, [], []) of
             (sk, rk, ek) \<Rightarrow> length rk + length ek = k \<and> prefix rk res \<and> prefix ek errs
                             \<and> prefix (fetch_log sk) (fetch_log s'))
     \<and> prefix (fetch_log s) (fetch_log s')
     \<and> list_all get_or_put (new_requests s s')"
proof -
  define br where "br = default_branch branch_arg"
  define s0 where "s0 = init_session e own rep files br s"
  obtain s3 res3 errs3 where
    loop: "batch_loop e own rep (length files) message br files (s0, [], []) = (s3, res3, errs3)"
    by (cases "batch_loop e own rep (length files) message br files (s0, [], [])") auto
  have fin: "finalize_session e (s3, res3, errs3) = ((res, errs), s')"
    using assms loop by (simp add: batchUpload_def Let_def br_def s0_def)
  note f = finalize_session_fields [OF fin]
  note i = init_session_fields [of e own rep files br s, folded s0_def]
  note r = batch_loop_report [OF loop]
  have nr: "new_requests s s' = new_requests s0 s3"
    by (simp add: new_requests_def f(3) i(1))
  have c1: "length res + length errs = length files" using r f(1,2) by simp
  have c2: "map p_file (drop (length (sent s)) (sent s')) = map path files"
    using r by (simp add: f(4) i(2))
  have c3: "subseq (map r_file res) (map path files)" using r f(1) by simp
  have c4: "subseq (map e_file errs) (map path files)" using r f(2) by simp
  have c6: "prefix (fetch_log s) (fetch_log s')" using r by (simp add: f(3) i(1))
  have c7: "list_all get_or_put (new_requests s s')" using r nr by simp
  have c5: "case batch_loop e own rep (length files) message br (take k files) (s0, [], []) of
             (sk, rk, ek) \<Rightarrow> length rk + length ek = k \<and> prefix rk res \<and> prefix ek errs
                             \<and> prefix (fetch_log sk) (fetch_log s')"
    if k: "k \<le> length files" for k
  proof -
    obtain sk rk ek where
      part: "batch_loop e own rep (length files) message br (take k files) (s0, [], []) = (sk, rk, ek)"
      by (cases "batch_loop e own rep (length files) message br (take k files) (s0, [], [])") auto
    have "batch_loop e own rep (length files) message br (take k files @ drop k files) (s0, [], [])
            = (s3, res3, errs3)"
      using loop by simp
    then have rest: "batch_loop e own rep (length files) message br (drop k files) (sk, rk, ek)
            = (s3, res3, errs3)"
      by (simp only: batch_loop_append part)
    note a = batch_loop_report [OF part]
    note b = batch_loop_report [OF rest]
    have "length rk + length ek = k" using a k by simp
    moreover have "prefix rk res" "prefix ek errs" using b f(1,2) by simp_all
    moreover have "prefix (fetch_log sk) (fetch_log s')" using b f(3) by simp
    ultimately show ?thesis by (simp add: part)
  qed
  show ?thesis
    unfolding br_def [symmetric] s0_def [symmetric]
    using c1 c2 c3 c4 c5 c6 c7 by blast
qed

text \<open>
  C1, witness: the files \<^verbatim>\<open>a.txt\<close> and \<^verbatim>\<open>b.txt\<close> against the throttled server. The
  first fails after its retries, the second is uploaded all the same.
\<close>

theorem batch_report_complete_witness:
  "fst (batchUpload (browser throttled_server) ''o'' ''r'' [a_txt, b_txt] [] (Some ''main'') logged_in)
     = ([\<lparr>r_file = ''b.txt'', r_status = ''success'', r_result = JObj [(''commit'', JStr ''c1'')]\<rparr>],
        [\<lparr>e_file = ''a.txt'', e_status = ''error'',
          e_error = ''GitHub API rate limit exceeded. Please try again later.''\<rparr>])
   \<and> length (fst (fst (batchUpload (browser throttled_server) ''o'' ''r'' [a_txt, b_txt] []
                          (Some ''main'') logged_in)))
     + length (snd (fst (batchUpload (browser throttled_server) ''o'' ''r'' [a_txt, b_txt] []
                          (Some ''main'') logged_in))) = length [a_txt, b_txt]"
proof -
  define X where "X = batchUpload (browser throttled_server) ''o'' ''r'' [a_txt, b_txt] [] (Some ''main'') logged_in"
  have ev: "fst X
     = ([\<lparr>r_file = ''b.txt'', r_status = ''success'', r_result = JObj [(''commit'', JStr ''c1'')]\<rparr>],
        [\<lparr>e_file = ''a.txt'', e_status = ''error'',
          e_error = ''GitHub API rate limit exceeded. Please try again later.''\<rparr>])"
    unfolding X_def
    by (simp add: run_simps throttled_server_def rate_limited_def a_txt_def b_txt_def
        del: includes_str.simps)
  have hyp: "batchUpload (browser throttled_server) ''o'' ''r'' [a_txt, b_txt] [] (Some ''main'') logged_in
      = ((fst (fst X), snd (fst X)), snd X)"
    by (simp add: X_def)
  from batch_report_complete [OF hyp]
  have "length (fst (fst X)) + length (snd (fst X)) = length [a_txt, b_txt]"
    by (rule conjunct1)
  then show ?thesis
    using ev unfolding X_def by simp
qed

section \<open>Progress notifications\<close>

text \<open>
  C7: after every file a progress message is sent whose \<open>current\<close> is the number of files
  attempted so far. The \<^verbatim>\<open>catch\<close> path sends \<^verbatim>\<open>results.length + errors.length\<close>
  (line 495) and the session gets the same sum on both paths (lines 462 and 484), but the
  success path sends \<^verbatim>\<open>results.length\<close> alone (line 472). With \<^verbatim>\<open>a.txt\<close> failing and
  \<^verbatim>\<open>b.txt\<close> uploaded, the message for \<^verbatim>\<open>b.txt\<close>, the second file attempted, says
  \<open>current = 1\<close>, while the session says 2.
\<close>

theorem success_progress_counts_only_successes:
  "map (\<lambda>p. (p_file p, p_status p, p_current p, p_total p))
     (sent (snd (batchUpload (browser throttled_server) ''o'' ''r'' [a_txt, b_txt] []
                   (Some ''main'') logged_in)))
     = [(''a.txt'', ''error'', 1, 2), (''b.txt'', ''success'', 1, 2)]
   \<and> current (currentUpload (snd (batchUpload (browser throttled_server) ''o'' ''r'' [a_txt, b_txt] []
                   (Some ''main'') logged_in))) = 2"
  by (simp add: run_simps throttled_server_def rate_limited_def a_txt_def b_txt_def
      del: includes_str.simps)

section \<open>The error taxonomy\<close>

text \<open>
  C5: 404 fails with ``Resource not found'', 403 with the rate-limit or the permission
  message, and 409 with a Conflict error of its own. The first two cases are in
  \<^verbatim>\<open>apiRequest\<close> (lines 265-275); the third is not. The repository's earlier
  \<^verbatim>\<open>apiRequest\<close> throws ``Conflict - file may already exist'' on a 409; this one kept the
  404 case, added the 403 case and lost the 409 case. So a PUT that the server answers 409
  is retried three times like any status that is not 2xx, and the fourth 409 fails with the
  generic message.
\<close>

theorem conflict_is_generic_failure:
  "fst (uploadFile (browser (always (answer 409 ''Conflict'' JNull))) ''o'' ''r'' ''a.txt'' ''YQ==''
          ''Upload a.txt'' ''main'' None logged_in)
     = Inl ''API request failed: 409 - Conflict''
   \<and> length (fetch_log (snd (uploadFile (browser (always (answer 409 ''Conflict'' JNull))) ''o'' ''r''
          ''a.txt'' ''YQ=='' ''Upload a.txt'' ''main'' None logged_in))) = 4
   \<and> sleeps (snd (uploadFile (browser (always (answer 409 ''Conflict'' JNull))) ''o'' ''r''
          ''a.txt'' ''YQ=='' ''Upload a.txt'' ''main'' None logged_in)) = [1000, 2000, 3000]"
  by (simp add: run_simps always_def show_nat_409 del: includes_str.simps)

section \<open>Which failures are retried\<close>




section \<open>Create or update\<close>



section \<open>Failures of the existence check\<close>

text \<open>
  C9, as stated: only a not-found outcome of the lookup is mapped to absent, and any other
  lookup failure propagates. \<^verbatim>\<open>getFileContent\<close> does not look at the kind of failure but
  at its message: ``Treat 404/"not found"/"resource not found" as non-error''. A lookup
  that the server answers 500 four times, with a body that mentions a 404, fails in the
  gateway with the generic message; the lookup resolves absent all the same, the file is
  PUT without a \<^verbatim>\<open>sha\<close> and is reported a success.
\<close>

theorem server_error_mentioning_404_resolves_absent:
  "fst (apiRequest (browser broken_lookup_server)
          (''/repos/'' @ ''o'' @ ''/'' @ ''r'' @ ''/contents/''
             @ replace_2F (encodeURIComponent (browser broken_lookup_server) ''a.txt'') @ ''?ref='' @ ''main'')
          \<lparr>opt_method = None, opt_body = None\<rparr> 0 logged_in)
     = Inl ''API request failed: 500 - upstream said 404''
   \<and> fst (getFileContent (browser broken_lookup_server) ''o'' ''r'' ''a.txt'' ''main'' logged_in)
     = Inr JNull
   \<and> fst (batchUpload (browser broken_lookup_server) ''o'' ''r'' [a_txt] [] (Some ''main'') logged_in)
     = ([\<lparr>r_file = ''a.txt'', r_status = ''success'', r_result = JObj [(''commit'', JStr ''c1'')]\<rparr>], [])
   \<and> map req_body (drop 4 (fetch_log (snd (batchUpload (browser broken_lookup_server) ''o'' ''r''
          [a_txt] [] (Some ''main'') logged_in))))
     = [Some (JObj [(''message'', JStr ''Upload a.txt''), (''content'', JStr ''YQ==''),
                    (''branch'', JStr ''main'')])]"
proof -
  have a: "fst (apiRequest (browser broken_lookup_server)
          (lookup_endpoint (browser broken_lookup_server) ''o'' ''r'' ''a.txt'' ''main'')
          no_options 0 logged_in)
     = Inl ''API request failed: 500 - upstream said 404''"
    by (simp add: run_simps broken_lookup_server_def show_nat_500 del: includes_str.simps)
  have b: "fst (getFileContent (browser broken_lookup_server) ''o'' ''r'' ''a.txt'' ''main'' logged_in)
     = Inr JNull"
    by (simp add: run_simps broken_lookup_server_def show_nat_500 not_found_message_500
        del: includes_str.simps)
  have c: "fst (batchUpload (browser broken_lookup_server) ''o'' ''r'' [a_txt] [] (Some ''main'') logged_in)
     = ([\<lparr>r_file = ''a.txt'', r_status = ''success'', r_result = JObj [(''commit'', JStr ''c1'')]\<rparr>], [])"
    by (simp add: run_simps broken_lookup_server_def show_nat_500 not_found_message_500 a_txt_def
        del: includes_str.simps)
  have d: "map req_body (drop 4 (fetch_log (snd (batchUpload (browser broken_lookup_server) ''o'' ''r''
          [a_txt] [] (Some ''main'') logged_in))))
     = [Some (JObj [(''message'', JStr ''Upload a.txt''), (''content'', JStr ''YQ==''),
                    (''branch'', JStr ''main'')])]"
    by (simp add: run_simps broken_lookup_server_def show_nat_500 not_found_message_500 a_txt_def
        put_body_def del: includes_str.simps)
  show ?thesis
    using a [unfolded lookup_endpoint_def no_options_def] b c d by blast
qed

text \<open>
  C9, amended: the existence lookup is the gateway call for the file's path; say it fails
  with the message \<open>m\<close>. What decides is whether \<open>m\<close>, in lower case, contains
  \<^verbatim>\<open>404\<close> or \<^verbatim>\<open>not found\<close>. If it does, as the gateway's ``Resource not found'' does
  and as any other failure with such a message does, the lookup returns \<^verbatim>\<open>null\<close>, the step
  goes on to the PUT, whose body has no \<^verbatim>\<open>sha\<close>, and the file ends in \<open>results\<close> whenever
  that upload succeeds. If it does not, as the gateway's rate-limit, permission and
  authentication messages and the browser's ``Failed to fetch'' do not, the failure leaves
  the lookup as it came: the file is recorded in \<open>errors\<close> with \<open>m\<close> unchanged, no request
  follows the lookup, and the loop goes on with the remaining files.
\<close>

theorem lookup_failure_handling:
  assumes "apiRequest e
             (''/repos/'' @ own @ ''/'' @ rep @ ''/contents/''
                @ replace_2F (encodeURIComponent e (path f)) @ ''?ref='' @ br)
             \<lparr>opt_method = None, opt_body = None\<rparr> 0 s = (Inl m, s1)"
    and "upload_step e own rep n message br f (s, res, errs) = (s2, res2, errs2)"
  shows "(includes_str (toLowerCase m) ''404'' \<or> includes_str (toLowerCase m) ''not found'' \<longrightarrow>
            getFileContent e own rep (path f) br s = (Inr JNull, s1)
          \<and> new_requests s1 s2 \<noteq> []
          \<and> list_all (\<lambda>q. req_method q = Some ''PUT'' \<and>
                          req_body q = Some (JObj [(''message'', JStr (if message \<noteq> [] then message
                                                                      else ''Upload '' @ path f)),
                                                   (''content'', JStr (content f)),
                                                   (''branch'', JStr br)]))
              (new_requests s1 s2)
          \<and> (\<forall>j s3. uploadFile e own rep (path f) (content f)
                          (if message \<noteq> [] then message else ''Upload '' @ path f) br None s1
                        = (Inr j, s3) \<longrightarrow>
                 res2 = res @ [\<lparr>r_file = path f, r_status = ''success'', r_result = j\<rparr>] \<and> errs2 = errs))
       \<and> (\<not> includes_str (toLowerCase m) ''404'' \<and> \<not> includes_str (toLowerCase m) ''not found'' \<longrightarrow>
            getFileContent e own rep (path f) br s = (Inl m, s1)
          \<and> res2 = res
          \<and> errs2 = errs @ [\<lparr>e_file = path f, e_status = ''error'', e_error = m\<rparr>]
          \<and> fetch_log s2 = fetch_log s1
          \<and> batch_loop e own rep n message br (f # fs) (s, res, errs)
              = batch_loop e own rep n message br fs
                  (s2, res, errs @ [\<lparr>e_file = path f, e_status = ''error'', e_error = m\<rparr>]))
       \<and> includes_str (toLowerCase ''Resource not found'') ''not found''
       \<and> (\<forall>x \<in> {''GitHub API rate limit exceeded. Please try again later.'',
                  ''Permission denied. Check your token permissions.'',
                  ''Authentication expired. Please login again.'',
                  ''Not authenticated. Please login first.'',
                  ''Failed to fetch''}.
            \<not> includes_str (toLowerCase x) ''404'' \<and> \<not> includes_str (toLowerCase x) ''not found'')"
proof -
  have call: "apiRequest e (lookup_endpoint e own rep (path f) br) no_options 0 s = (Inl m, s1)"
    using assms(1) by (simp only: lookup_endpoint_def no_options_def)
  have F1: "includes_str (toLowerCase ''Resource not found'') ''not found''"
    by code_simp
  have F2: "\<forall>x \<in> {''GitHub API rate limit exceeded. Please try again later.'',
                  ''Permission denied. Check your token permissions.'',
                  ''Authentication expired. Please login again.'',
                  ''Not authenticated. Please login first.'',
                  ''Failed to fetch''}.
            \<not> includes_str (toLowerCase x) ''404'' \<and> \<not> includes_str (toLowerCase x) ''not found''"
    using not_found_messages(2-5) not_found_message_failed_fetch
    unfolding not_found_message_iff
    by (simp del: includes_str.simps)
  have P1: "includes_str (toLowerCase m) ''404'' \<or> includes_str (toLowerCase m) ''not found'' \<longrightarrow>
            getFileContent e own rep (path f) br s = (Inr JNull, s1)
          \<and> new_requests s1 s2 \<noteq> []
          \<and> list_all (\<lambda>q. req_method q = Some ''PUT'' \<and>
                          req_body q = Some (JObj [(''message'', JStr (if message \<noteq> [] then message
                                                                      else ''Upload '' @ path f)),
                                                   (''content'', JStr (content f)),
                                                   (''branch'', JStr br)]))
              (new_requests s1 s2)
          \<and> (\<forall>j s3. uploadFile e own rep (path f) (content f)
                          (if message \<noteq> [] then message else ''Upload '' @ path f) br None s1
                        = (Inr j, s3) \<longrightarrow>
                 res2 = res @ [\<lparr>r_file = path f, r_status = ''success'', r_result = j\<rparr>] \<and> errs2 = errs)"
  proof (rule impI)
    assume nf: "includes_str (toLowerCase m) ''404'' \<or> includes_str (toLowerCase m) ''not found''"
    have nfm: "not_found_message m" using nf unfolding not_found_message_iff .
    have g: "getFileContent e own rep (path f) br s = (Inr JNull, s1)"
      using call nfm by (simp add: getFileContent_alt)
    from upload_step_after_lookup [OF g assms(2)]
    obtain r s3' where
      up: "uploadFile e own rep (path f) (content f) (commit_message message f) br None s1 = (r, s3')"
      and out: "case r of
                 Inr j \<Rightarrow> res2 = res @ [\<lparr>r_file = path f, r_status = ''success'', r_result = j\<rparr>] \<and> errs2 = errs
               | Inl m \<Rightarrow> res2 = res \<and> errs2 = errs @ [\<lparr>e_file = path f, e_status = ''error'', e_error = m\<rparr>]"
      by auto
    have a: "\<forall>j s3. uploadFile e own rep (path f) (content f) (commit_message message f) br None s1
                        = (Inr j, s3) \<longrightarrow>
                 res2 = res @ [\<lparr>r_file = path f, r_status = ''success'', r_result = j\<rparr>] \<and> errs2 = errs"
      using up out by auto
    have b: "new_requests s1 s2 \<noteq> []"
      and c: "list_all (\<lambda>q. req_method q = Some ''PUT'' \<and>
                          req_body q = Some (JObj [(''message'', JStr (commit_message message f)),
                                                   (''content'', JStr (content f)),
                                                   (''branch'', JStr br)]))
              (new_requests s1 s2)"
      using upload_requests [OF g assms(2)] by (simp_all add: put_body_absent)
    show "getFileContent e own rep (path f) br s = (Inr JNull, s1)
          \<and> new_requests s1 s2 \<noteq> []
          \<and> list_all (\<lambda>q. req_method q = Some ''PUT'' \<and>
                          req_body q = Some (JObj [(''message'', JStr (if message \<noteq> [] then message
                                                                      else ''Upload '' @ path f)),
                                                   (''content'', JStr (content f)),
                                                   (''branch'', JStr br)]))
              (new_requests s1 s2)
          \<and> (\<forall>j s3. uploadFile e own rep (path f) (content f)
                          (if message \<noteq> [] then message else ''Upload '' @ path f) br None s1
                        = (Inr j, s3) \<longrightarrow>
                 res2 = res @ [\<lparr>r_file = path f, r_status = ''success'', r_result = j\<rparr>] \<and> errs2 = errs)"
      using g a b c unfolding commit_message_def by (intro conjI)
  qed
  have P2: "\<not> includes_str (toLowerCase m) ''404'' \<and> \<not> includes_str (toLowerCase m) ''not found'' \<longrightarrow>
            getFileContent e own rep (path f) br s = (Inl m, s1)
          \<and> res2 = res
          \<and> errs2 = errs @ [\<lparr>e_file = path f, e_status = ''error'', e_error = m\<rparr>]
          \<and> fetch_log s2 = fetch_log s1
          \<and> batch_loop e own rep n message br (f # fs) (s, res, errs)
              = batch_loop e own rep n message br fs
                  (s2, res, errs @ [\<lparr>e_file = path f, e_status = ''error'', e_error = m\<rparr>])"
  proof (rule impI)
    assume nf: "\<not> includes_str (toLowerCase m) ''404'' \<and> \<not> includes_str (toLowerCase m) ''not found''"
    have nfm: "\<not> not_found_message m" using nf unfolding not_found_message_iff by blast
    have g: "getFileContent e own rep (path f) br s = (Inl m, s1)"
      using call nfm by (simp add: getFileContent_alt)
    have st: "upload_step e own rep n message br f (s, res, errs) = on_error e n f m (s1, res, errs)"
      by (simp add: upload_step_def g)
    then have oe: "on_error e n f m (s1, res, errs) = (s2, res2, errs2)"
      using assms(2) by simp
    note h = on_error_effect [OF oe]
    have l: "batch_loop e own rep n message br (f # fs) (s, res, errs)
              = batch_loop e own rep n message br fs
                  (s2, res, errs @ [\<lparr>e_file = path f, e_status = ''error'', e_error = m\<rparr>])"
      using assms(2) h(1,2) by simp
    show "getFileContent e own rep (path f) br s = (Inl m, s1)
          \<and> res2 = res
          \<and> errs2 = errs @ [\<lparr>e_file = path f, e_status = ''error'', e_error = m\<rparr>]
          \<and> fetch_log s2 = fetch_log s1
          \<and> batch_loop e own rep n message br (f # fs) (s, res, errs)
              = batch_loop e own rep n message br fs
                  (s2, res, errs @ [\<lparr>e_file = path f, e_status = ''error'', e_error = m\<rparr>])"
      using g h(1,2,3) l by (intro conjI)
  qed
  show ?thesis
    by (intro conjI P1 P2 F1 F2)
qed


text \<open>
  C9, witness: the lookup of \<^verbatim>\<open>a.txt\<close> on the throttled server fails with the rate-limit
  message and the file goes to \<open>errors\<close>; on the empty repository it fails with
  ``Resource not found'' and resolves to \<^verbatim>\<open>null\<close>.
\<close>

theorem lookup_failure_handling_witness:
  "snd (snd (upload_step (browser throttled_server) ''o'' ''r'' 2 [] ''main'' a_txt (logged_in, [], [])))
     = [\<lparr>e_file = ''a.txt'', e_status = ''error'',
         e_error = ''GitHub API rate limit exceeded. Please try again later.''\<rparr>]
   \<and> fst (getFileContent (browser empty_repo_server) ''o'' ''r'' (path a_txt) ''main'' logged_in) = Inr JNull"
proof -
  define A where "A = apiRequest (browser throttled_server)
      (lookup_endpoint (browser throttled_server) ''o'' ''r'' (path a_txt) ''main'') no_options 0 logged_in"
  define U where "U = upload_step (browser throttled_server) ''o'' ''r'' 2 [] ''main'' a_txt (logged_in, [], [])"
  define B where "B = apiRequest (browser empty_repo_server)
      (lookup_endpoint (browser empty_repo_server) ''o'' ''r'' (path a_txt) ''main'') no_options 0 logged_in"
  define V where "V = upload_step (browser empty_repo_server) ''o'' ''r'' 2 [] ''main'' a_txt (logged_in, [], [])"
  have "fst A = Inl ''GitHub API rate limit exceeded. Please try again later.''"
    unfolding A_def
    by (simp add: run_simps throttled_server_def rate_limited_def del: includes_str.simps)
  then have "apiRequest (browser throttled_server)
      (lookup_endpoint (browser throttled_server) ''o'' ''r'' (path a_txt) ''main'') no_options 0 logged_in
      = (Inl ''GitHub API rate limit exceeded. Please try again later.'', snd A)"
    by (simp add: A_def prod_eq_iff)
  then have a: "apiRequest (browser throttled_server)
      (''/repos/'' @ ''o'' @ ''/'' @ ''r'' @ ''/contents/''
        @ replace_2F (encodeURIComponent (browser throttled_server) (path a_txt)) @ ''?ref='' @ ''main'')
      \<lparr>opt_method = None, opt_body = None\<rparr> 0 logged_in
      = (Inl ''GitHub API rate limit exceeded. Please try again later.'', snd A)"
    by (simp only: lookup_endpoint_def no_options_def)
  have u: "upload_step (browser throttled_server) ''o'' ''r'' 2 [] ''main'' a_txt (logged_in, [], [])
      = (fst U, fst (snd U), snd (snd U))"
    by (simp add: U_def)
  have "fst B = Inl ''Resource not found''"
    unfolding B_def
    by (simp add: run_simps empty_repo_server_def del: includes_str.simps)
  then have "apiRequest (browser empty_repo_server)
      (lookup_endpoint (browser empty_repo_server) ''o'' ''r'' (path a_txt) ''main'') no_options 0 logged_in
      = (Inl ''Resource not found'', snd B)"
    by (simp add: B_def prod_eq_iff)
  then have b: "apiRequest (browser empty_repo_server)
      (''/repos/'' @ ''o'' @ ''/'' @ ''r'' @ ''/contents/''
        @ replace_2F (encodeURIComponent (browser empty_repo_server) (path a_txt)) @ ''?ref='' @ ''main'')
      \<lparr>opt_method = None, opt_body = None\<rparr> 0 logged_in
      = (Inl ''Resource not found'', snd B)"
    by (simp only: lookup_endpoint_def no_options_def)
  have v: "upload_step (browser empty_repo_server) ''o'' ''r'' 2 [] ''main'' a_txt (logged_in, [], [])
      = (fst V, fst (snd V), snd (snd V))"
    by (simp add: V_def)
  have no: "\<not> includes_str (toLowerCase ''GitHub API rate limit exceeded. Please try again later.'') ''404''
       \<and> \<not> includes_str (toLowerCase ''GitHub API rate limit exceeded. Please try again later.'') ''not found''"
    using not_found_messages(4) unfolding not_found_message_iff by blast
  have yes: "includes_str (toLowerCase ''Resource not found'') ''404''
       \<or> includes_str (toLowerCase ''Resource not found'') ''not found''"
    using not_found_messages(1) unfolding not_found_message_iff .
  note p2 = lookup_failure_handling [OF a u, THEN conjunct2, THEN conjunct1, THEN mp, OF no]
  have one: "snd (snd U) = [\<lparr>e_file = path a_txt, e_status = ''error'',
         e_error = ''GitHub API rate limit exceeded. Please try again later.''\<rparr>]"
    using p2 by simp
  note p1 = lookup_failure_handling [OF b v, THEN conjunct1, THEN mp, OF yes]
  have two: "getFileContent (browser empty_repo_server) ''o'' ''r'' (path a_txt) ''main'' logged_in
      = (Inr JNull, snd B)"
    using p1 by (rule conjunct1)
  show ?thesis
    using one two by (simp add: U_def a_txt_def)
qed

section \<open>Losing the credential in the middle of a batch\<close>

text \<open>
  C4: say that while one file of a batch is processed some request is answered 401. Then
  the token is gone from memory and from storage; that 401 is the last answer of the
  file's processing, so it was not retried, and the file is recorded in \<open>errors\<close> with the
  message ``Authentication expired. Please login again.''. Every later file of the batch
  fails with ``Not authenticated. Please login first.'' and no further request is issued:
  the log of requests after the whole loop is the log after this file.
\<close>

theorem unauthenticated_fails_fast:
  assumes "upload_step e own rep n message br f (s, res, errs) = (s1, res1, errs1)"
    and "list_ex is_401 (responses e (fetch_log s) (new_requests s s1))"
    and "batch_loop e own rep n message br fs (s1, res1, errs1) = (s2, res2, errs2)"
  shows "authToken s1 = None \<and> stored_github_token s1 = None
       \<and> is_401 (last (responses e (fetch_log s) (new_requests s s1)))
       \<and> \<not> list_ex is_401 (butlast (responses e (fetch_log s) (new_requests s s1)))
       \<and> res1 = res
       \<and> errs1 = errs @ [\<lparr>e_file = path f, e_status = ''error'',
                           e_error = ''Authentication expired. Please login again.''\<rparr>]
       \<and> fetch_log s2 = fetch_log s1
       \<and> res2 = res1
       \<and> errs2 = errs1 @ map (\<lambda>g. \<lparr>e_file = path g, e_status = ''error'',
                                      e_error = ''Not authenticated. Please login first.''\<rparr>) fs"
proof -
  note a = upload_step_401 [OF assms(1,2)]
  then have "no_credential s1" by (simp add: no_credential_def)
  from batch_loop_logged_out [OF this assms(3)] a show ?thesis by simp
qed

text \<open>
  C4, witness: \<^verbatim>\<open>a.txt\<close> and \<^verbatim>\<open>b.txt\<close> against a server that answers 401: one request
  is made, for the lookup of \<^verbatim>\<open>a.txt\<close>, and \<^verbatim>\<open>b.txt\<close> fails without any.
\<close>

theorem unauthenticated_fails_fast_witness:
  "length (fetch_log (fst (batch_loop (browser (always (answer 401 ''Unauthorized'' JNull)))
       ''o'' ''r'' 2 [] ''main'' [a_txt, b_txt] (logged_in, [], [])))) = 1
   \<and> snd (snd (batch_loop (browser (always (answer 401 ''Unauthorized'' JNull)))
       ''o'' ''r'' 2 [] ''main'' [a_txt, b_txt] (logged_in, [], [])))
     = [\<lparr>e_file = ''a.txt'', e_status = ''error'',
          e_error = ''Authentication expired. Please login again.''\<rparr>,
        \<lparr>e_file = ''b.txt'', e_status = ''error'',
          e_error = ''Not authenticated. Please login first.''\<rparr>]"
proof -
  define E where "E = browser (always (answer 401 ''Unauthorized'' JNull))"
  define U where "U = upload_step E ''o'' ''r'' 2 [] ''main'' a_txt (logged_in, [], [])"
  define L where "L = batch_loop E ''o'' ''r'' 2 [] ''main'' [b_txt] (fst U, fst (snd U), snd (snd U))"
  have u: "upload_step E ''o'' ''r'' 2 [] ''main'' a_txt (logged_in, [], []) = (fst U, fst (snd U), snd (snd U))"
    by (simp add: U_def)
  have l: "batch_loop E ''o'' ''r'' 2 [] ''main'' [b_txt] (fst U, fst (snd U), snd (snd U))
       = (fst L, fst (snd L), snd (snd L))"
    by (simp add: L_def)
  have whole: "batch_loop E ''o'' ''r'' 2 [] ''main'' [a_txt, b_txt] (logged_in, [], []) = L"
    by (simp add: L_def U_def)
  have log: "fetch_log (fst U) = [the_request (lookup_endpoint E ''o'' ''r'' ''a.txt'' ''main'') no_options logged_in]"
    unfolding U_def E_def
    by (simp add: run_simps always_def a_txt_def del: includes_str.simps)
  have got: "list_ex is_401 (responses E (fetch_log logged_in) (new_requests logged_in (fst U)))"
    by (simp add: new_requests_def log) (simp add: logged_in_def E_def browser_def always_def answer_def)
  from unauthenticated_fails_fast [OF u got l]
  have "fetch_log (fst L) = fetch_log (fst U)"
    and "snd (snd L) = ([] @ [\<lparr>e_file = path a_txt, e_status = ''error'',
                           e_error = ''Authentication expired. Please login again.''\<rparr>])
           @ map (\<lambda>g. \<lparr>e_file = path g, e_status = ''error'',
                        e_error = ''Not authenticated. Please login first.''\<rparr>) [b_txt]"
    by simp_all
  then show ?thesis
    unfolding E_def [symmetric] whole by (simp add: log a_txt_def b_txt_def)
qed

section \<open>The session during and after a batch\<close>

text \<open>
  C8: every snapshot that a batch run writes to the session storage is consistent:
  \<open>current\<close> is the number of its \<open>results\<close> plus the number of its \<open>errors\<close>, and \<open>total\<close>
  is the number of files. So is the session in memory after any number \<open>k\<close> of files, where
  \<open>current\<close> is \<open>k\<close> and the batch is still active. When the run has returned, the session
  is still consistent, holds the report, is no longer active, and its \<open>finishedAt\<close> is not
  before its \<open>startedAt\<close>. Where the browser has a session storage, the last snapshot
  written is that final session, and the snapshots count 0, 1, \<dots>, the number of files,
  and that number once more.
\<close>

theorem session_snapshots_consistent:
  assumes "batchUpload e own rep files message branch_arg s = ((res, errs), s')"
  shows "list_all (consistent (length files)) (drop (length (session_writes s)) (session_writes s'))
     \<and> (\<forall>k \<le> length files.
           case batch_loop e own rep (length files) message (default_branch branch_arg) (take k files)
                  (init_session e own rep files (default_branch branch_arg) s, [], []) of
             (sk, rk, ek) \<Rightarrow> consistent (length files) (currentUpload sk)
                             \<and> current (currentUpload sk) = k \<and> active (currentUpload sk))
     \<and> consistent (length files) (currentUpload s')
     \<and> results (currentUpload s') = res \<and> errors (currentUpload s') = errs
     \<and> active (currentUpload s') = False
     \<and> (\<exists>t0 t1. startedAt (currentUpload s') = Some t0 \<and> finishedAt (currentUpload s') = Some t1
                  \<and> t0 \<le> t1)
     \<and> (has_session_storage e \<longrightarrow>
           session_writes s' \<noteq> [] \<and> last (session_writes s') = currentUpload s'
         \<and> map current (drop (length (session_writes s)) (session_writes s'))
             = [0 ..< Suc (length files)] @ [length files])"
proof -
  define br where "br = default_branch branch_arg"
  define s0 where "s0 = init_session e own rep files br s"
  define N where "N = length files"
  obtain s3 res3 errs3 where
    loop: "batch_loop e own rep N message br files (s0, [], []) = (s3, res3, errs3)"
    by (cases "batch_loop e own rep N message br files (s0, [], [])") auto
  have fin: "finalize_session e (s3, res3, errs3) = ((res, errs), s')"
    using assms loop by (simp add: batchUpload_def Let_def br_def s0_def N_def)
  note f = finalize_session_session [OF fin]
  have rep: "res = res3" "errs = errs3"
    using finalize_session_fields(1,2) [OF fin] by simp_all
  note i = init_session_session [of e own rep files br s, folded s0_def N_def]
  have i0: "results (currentUpload s0) = []" "errors (currentUpload s0) = []"
    "current (currentUpload s0) = 0" "active (currentUpload s0)"
    "startedAt (currentUpload s0) = Some (now s)" "consistent N (currentUpload s0)"
    by (simp_all add: i(1) consistent_def)
  have t0: "now s0 = now s" by (simp add: s0_def init_session_fields)
  note l = batch_loop_session [OF loop i0(1) i0(2) i0(6)]
  have mono: "now s0 \<le> now s3" using batch_loop_report [OF loop] by blast
  have c3: "consistent N (currentUpload s')"
    using l by (simp add: f(1) consistent_def)
  have c4: "results (currentUpload s') = res" "errors (currentUpload s') = errs"
    "active (currentUpload s') = False"
    by (simp_all add: f(1) rep)
  have c5: "\<exists>t0 t1. startedAt (currentUpload s') = Some t0 \<and> finishedAt (currentUpload s') = Some t1
                  \<and> t0 \<le> t1"
    using l i0(5) mono t0 by (simp add: f(1))
  obtain mid where mid: "session_writes s3 = session_writes s0 @ mid"
    using l by (auto simp: prefix_def)
  have dmid: "drop (length (session_writes s0)) (session_writes s3) = mid" using mid by simp
  have new: "drop (length (session_writes s)) (session_writes s')
      = (if has_session_storage e then [currentUpload s0] else []) @ mid
        @ (if has_session_storage e then [currentUpload s'] else [])"
    using mid i(2) f(2) by simp
  have c1: "list_all (consistent N) (drop (length (session_writes s)) (session_writes s'))"
    unfolding new using l i0(6) c3 by (simp add: dmid)
  have c6: "session_writes s' \<noteq> [] \<and> last (session_writes s') = currentUpload s'
         \<and> map current (drop (length (session_writes s)) (session_writes s')) = [0 ..< Suc N] @ [N]"
    if hs: "has_session_storage e"
  proof -
    have m: "map current mid = [Suc 0 ..< Suc N]"
      using l hs by (simp add: dmid i0(3) N_def)
    have cN: "current (currentUpload s') = N"
      using l rep batch_loop_report [OF loop] by (simp add: f(1) consistent_def N_def)
    have "[0 ..< Suc N] = 0 # [Suc 0 ..< Suc N]"
      using upt_conv_Cons [of 0 "Suc N"] by (simp del: upt_Suc)
    then have "map current (drop (length (session_writes s)) (session_writes s')) = [0 ..< Suc N] @ [N]"
      unfolding new using hs m cN i0(3) by (simp del: upt_Suc)
    then show ?thesis using hs f(2) by simp
  qed
  have c2: "case batch_loop e own rep N message br (take k files) (s0, [], []) of
             (sk, rk, ek) \<Rightarrow> consistent N (currentUpload sk)
                             \<and> current (currentUpload sk) = k \<and> active (currentUpload sk)"
    if k: "k \<le> N" for k
  proof -
    obtain sk rk ek where
      part: "batch_loop e own rep N message br (take k files) (s0, [], []) = (sk, rk, ek)"
      by (cases "batch_loop e own rep N message br (take k files) (s0, [], [])") auto
    note a = batch_loop_session [OF part i0(1) i0(2) i0(6)]
    have "length rk + length ek = k" using batch_loop_report [OF part] k by (simp add: N_def)
    then have "current (currentUpload sk) = k" using a by (simp add: consistent_def)
    then show ?thesis using a i0(4) by (simp add: part)
  qed
  show ?thesis
    unfolding br_def [symmetric] s0_def [symmetric] N_def [symmetric]
    using c5 c2 by (simp add: c1 c3 c4 c6)
qed


text \<open>
  C8, witness: \<^verbatim>\<open>a.txt\<close> and \<^verbatim>\<open>b.txt\<close> against the throttled server, in a browser with
  a session storage: four snapshots, counting 0, 1, 2 and 2.
\<close>

theorem session_snapshots_consistent_witness:
  "map current (session_writes (snd (batchUpload (browser throttled_server) ''o'' ''r'' [a_txt, b_txt] []
       (Some ''main'') logged_in))) = [0, 1, 2, 2]
   \<and> active (currentUpload (snd (batchUpload (browser throttled_server) ''o'' ''r'' [a_txt, b_txt] []
       (Some ''main'') logged_in))) = False"
proof -
  define X where "X = batchUpload (browser throttled_server) ''o'' ''r'' [a_txt, b_txt] [] (Some ''main'') logged_in"
  have hyp: "batchUpload (browser throttled_server) ''o'' ''r'' [a_txt, b_txt] [] (Some ''main'') logged_in
      = ((fst (fst X), snd (fst X)), snd X)"
    by (simp add: X_def)
  have hs: "has_session_storage (browser throttled_server)" by (simp add: browser_def)
  have w0: "session_writes logged_in = []" by (simp add: logged_in_def)
  have up: "[0 ..< Suc (length [a_txt, b_txt])] @ [length [a_txt, b_txt]] = [0, 1, 2, 2]"
    by (simp add: upt_rec)
  from session_snapshots_consistent [OF hyp] hs
  have "map current (drop (length (session_writes logged_in)) (session_writes (snd X)))
          = [0 ..< Suc (length [a_txt, b_txt])] @ [length [a_txt, b_txt]]"
    and "active (currentUpload (snd X)) = False"
    by blast+
  then show ?thesis
    unfolding up by (simp add: w0 X_def)
qed

section \<open>The empty batch\<close>

text \<open>
  C10: a batch over no files returns the empty report. It issues no request and sends no
  progress message. The session it leaves is finalized: not active, \<open>total\<close> and \<open>current\<close>
  0, \<open>startedAt\<close> and \<open>finishedAt\<close> both set. Where the browser has a session storage, the
  run writes two snapshots, the initial one and then that final session.
\<close>

theorem empty_batch:
  assumes "batchUpload e own rep [] message branch_arg s = (report, s')"
  shows "report = ([], [])
     \<and> fetch_log s' = fetch_log s \<and> sent s' = sent s \<and> delivered s' = delivered s
     \<and> currentUpload s' =
         \<lparr>active = False, owner = Some own, repo = Some rep, branch = default_branch branch_arg,
          total = 0, current = 0, cur_file = [], results = [], errors = [],
          startedAt = Some (now s), finishedAt = Some (now s)\<rparr>
     \<and> (has_session_storage e \<longrightarrow>
          session_writes s' = session_writes s @
            [\<lparr>active = True, owner = Some own, repo = Some rep, branch = default_branch branch_arg,
              total = 0, current = 0, cur_file = [], results = [], errors = [],
              startedAt = Some (now s), finishedAt = None\<rparr>,
             currentUpload s'])"
  using assms
  by (auto simp: batchUpload_def init_session_def finalize_session_def persist_def Let_def)

text \<open>C10, witness: the empty batch in a browser with a session storage.\<close>

theorem empty_batch_witness:
  "fst (batchUpload (browser existing_server) ''o'' ''r'' [] [] (Some ''main'') logged_in) = ([], [])
   \<and> map (\<lambda>u. (active u, total u, current u))
        (session_writes (snd (batchUpload (browser existing_server) ''o'' ''r'' [] [] (Some ''main'') logged_in)))
      = [(True, 0, 0), (False, 0, 0)]"
proof -
  define X where "X = batchUpload (browser existing_server) ''o'' ''r'' [] [] (Some ''main'') logged_in"
  have hyp: "batchUpload (browser existing_server) ''o'' ''r'' [] [] (Some ''main'') logged_in = (fst X, snd X)"
    by (simp add: X_def)
  have hs: "has_session_storage (browser existing_server)" by (simp add: browser_def)
  have w0: "session_writes logged_in = []" by (simp add: logged_in_def)
  from empty_batch [OF hyp] hs
  have "fst X = ([], [])"
    and "session_writes (snd X) = session_writes logged_in @
            [\<lparr>active = True, owner = Some ''o'', repo = Some ''r'', branch = default_branch (Some ''main''),
              total = 0, current = 0, cur_file = [], results = [], errors = [],
              startedAt = Some (now logged_in), finishedAt = None\<rparr>,
             currentUpload (snd X)]"
    and "currentUpload (snd X) =
         \<lparr>active = False, owner = Some ''o'', repo = Some ''r'', branch = default_branch (Some ''main''),
          total = 0, current = 0, cur_file = [], results = [], errors = [],
          startedAt = Some (now logged_in), finishedAt = Some (now logged_in)\<rparr>"
    by blast+
  then show ?thesis
    by (simp add: w0 X_def)
qed

end
